(* ===== verification/Prelude.thy ===== *)
theory Prelude
  imports Main "HOL-Library.Word"
begin

unbundle bit_operations_syntax

text \<open>
  Shared vocabulary of the development.

  \<^item> C integer types of \<^verbatim>\<open>src/include/shared.h\<close> as words of their width;
  \<^item> a C object (a \<^verbatim>\<open>malloc\<close>ed area, an array) as a list of bytes, a pointer into it as an
    offset, and the accesses the sources make (\<open>p[i]\<close>, \<open>memcpy\<close>, \<open>memset\<close>, \<open>memcmp\<close>) as total
    functions whose out-of-bounds cases are the error value \<open>OutOfBounds\<close>;
  \<^item> the result type every fallible operation returns, with its sequencing operator \<open>rbind\<close>;
  \<^item> lemmas on these that the component proofs share, collected in \<open>mem_simps\<close> and
    \<open>res_simps\<close>.

  An access outside its object is undefined behaviour in C. The model does not guess what the
  machine would do: the operation ends with \<open>Inl OutOfBounds\<close>.
\<close>

named_theorems mem_simps \<open>rewriting of byte buffers\<close>
named_theorems res_simps \<open>rewriting of results\<close>

subsection \<open>Integers and buffers\<close>

type_synonym uchar = "8 word"
type_synonym ushort = "16 word"
type_synonym uint = "32 word"
type_synonym bytes = "uchar list"

text \<open>
  Errors: an access outside an object, a dereference of a null pointer, a use of memory that
  was freed or never allocated, and \<^verbatim>\<open>fatal(...)\<close> of \<^verbatim>\<open>src/src/printing.c\<close>, which prints its
  message and exits. \<open>Diverges\<close> is the outcome of a caller whose callee, a
  \<^theory_text>\<open>partial_function\<close> with the value \<open>None\<close>, does not return.
\<close>

datatype c_error = OutOfBounds | NullPointer | BadPointer | Diverges | Fatal string

type_synonym 'a res = "c_error + 'a"

definition rbind :: "'a res \<Rightarrow> ('a \<Rightarrow> 'b res) \<Rightarrow> 'b res" where
  "rbind m f = (case m of Inl e \<Rightarrow> Inl e | Inr x \<Rightarrow> f x)"

lemma rbind_Inr [simp]: "rbind (Inr x) f = f x"
  by (simp add: rbind_def)

lemma rbind_Inl [simp]: "rbind (Inl e) f = Inl e"
  by (simp add: rbind_def)

lemma rbind_eq_Inr [res_simps]: "rbind m f = Inr y \<longleftrightarrow> (\<exists>x. m = Inr x \<and> f x = Inr y)"
  by (cases m) auto

lemma case_option_eq_Inr: "(case p of None \<Rightarrow> Inl e | Some x \<Rightarrow> f x) = Inr y \<longleftrightarrow> (\<exists>x. p = Some x \<and> f x = Inr y)"
  by (cases p) auto

lemma rbind_if [res_simps]:
  "rbind (if b then x else y) f = (if b then rbind x f else rbind y f)"
  by simp

lemma rbind_assoc: "rbind (rbind m f) g = rbind m (\<lambda>x. rbind (f x) g)"
  by (cases m) auto

lemma rbind_cong [fundef_cong]:
  "m = m' \<Longrightarrow> (\<And>x. m' = Inr x \<Longrightarrow> f x = f' x) \<Longrightarrow> rbind m f = rbind m' f'"
  by (cases m') auto

text \<open>Host byte order: the standard functions \<^verbatim>\<open>ntohl\<close>/\<^verbatim>\<open>ntohs\<close> depend on it.\<close>

datatype endian = Little | Big

subsection \<open>Segments of a buffer\<close>

definition segment :: "'a list \<Rightarrow> nat \<Rightarrow> nat \<Rightarrow> 'a list" where
  "segment b off n = take n (drop off b)"

definition patch :: "'a list \<Rightarrow> nat \<Rightarrow> 'a list \<Rightarrow> 'a list" where
  "patch b off xs = take off b @ xs @ drop (off + length xs) b"

lemma length_segment [mem_simps]: "off + n \<le> length b \<Longrightarrow> length (segment b off n) = n"
  by (simp add: segment_def)

lemma length_patch [mem_simps]:
  "off + length xs \<le> length b \<Longrightarrow> length (patch b off xs) = length b"
  by (simp add: patch_def)

lemma nth_segment [mem_simps]: "off + n \<le> length b \<Longrightarrow> i < n \<Longrightarrow> segment b off n ! i = b ! (off + i)"
  by (simp add: segment_def)

lemma nth_patch:
  assumes "off + length xs \<le> length b" "i < length b"
  shows "patch b off xs ! i = (if off \<le> i \<and> i < off + length xs then xs ! (i - off) else b ! i)"
  using assms by (auto simp: patch_def nth_append min_def)

lemma segment_patch_same [mem_simps]:
  "off + length xs \<le> length b \<Longrightarrow> n = length xs \<Longrightarrow> segment (patch b off xs) off n = xs"
  by (simp add: segment_def patch_def)

lemma segment_patch_other [mem_simps]:
  assumes "off + length xs \<le> length b" "off' + n \<le> length b"
    and "off' + n \<le> off \<or> off + length xs \<le> off'"
  shows "segment (patch b off xs) off' n = segment b off' n"
proof (rule nth_equalityI)
  show "length (segment (patch b off xs) off' n) = length (segment b off' n)"
    using assms by (simp add: mem_simps)
next
  fix i assume "i < length (segment (patch b off xs) off' n)"
  then show "segment (patch b off xs) off' n ! i = segment b off' n ! i"
    using assms by (auto simp: mem_simps nth_patch)
qed

lemma segment_0_append [mem_simps]: "n = length xs \<Longrightarrow> segment (xs @ ys) 0 n = xs"
  by (simp add: segment_def)

lemma segment_append_right [mem_simps]: "length xs \<le> k \<Longrightarrow> segment (xs @ ys) k n = segment ys (k - length xs) n"
  by (simp add: segment_def)

lemma segment_Cons [mem_simps]: "0 < k \<Longrightarrow> segment (x # xs) k n = segment xs (k - 1) n"
  by (cases k) (simp_all add: segment_def)

lemma segment_all [mem_simps]: "n = length xs \<Longrightarrow> segment xs 0 n = xs"
  by (simp add: segment_def)

lemma segment_patch_inside:
  "off + length xs \<le> length b \<Longrightarrow> k + n \<le> length xs \<Longrightarrow> segment (patch b off xs) (off + k) n = segment xs k n"
  by (simp add: segment_def patch_def)

lemma patch_inject:
  "patch b off xs = patch b off ys \<Longrightarrow> length xs = length ys \<Longrightarrow> off + length xs \<le> length b \<Longrightarrow> xs = ys"
  by (metis segment_patch_same)

lemma take_patch [mem_simps]: "off \<le> length b \<Longrightarrow> take off (patch b off xs) = take off b"
  by (simp add: patch_def)

lemma drop_patch [mem_simps]: "off \<le> length b \<Longrightarrow> n = off + length xs \<Longrightarrow> drop n (patch b off xs) = drop n b"
  by (simp add: patch_def)

lemma patch_self [mem_simps]: "off + n \<le> length b \<Longrightarrow> patch b off (segment b off n) = b"
  by (simp add: patch_def segment_def min_def) (metis append_take_drop_id drop_drop add.commute)

lemma patch_Nil [simp]: "patch b off [] = b"
  by (simp add: patch_def)

subsection \<open>Accesses\<close>

definition load :: "'a list \<Rightarrow> nat \<Rightarrow> 'a res" where
  "load b i = (if i < length b then Inr (b ! i) else Inl OutOfBounds)"

definition store :: "'a list \<Rightarrow> nat \<Rightarrow> 'a \<Rightarrow> 'a list res" where
  "store b i v = (if i < length b then Inr (b[i := v]) else Inl OutOfBounds)"

definition mem_read :: "'a list \<Rightarrow> nat \<Rightarrow> nat \<Rightarrow> 'a list res" where
  "mem_read b off n = (if off + n \<le> length b then Inr (segment b off n) else Inl OutOfBounds)"

definition mem_write :: "'a list \<Rightarrow> nat \<Rightarrow> 'a list \<Rightarrow> 'a list res" where
  "mem_write b off xs = (if off + length xs \<le> length b then Inr (patch b off xs) else Inl OutOfBounds)"

text \<open>\<^verbatim>\<open>memcpy(&dest[doff], &src[soff], n)\<close> between two distinct objects.\<close>

definition memcpy :: "'a list \<Rightarrow> nat \<Rightarrow> 'a list \<Rightarrow> nat \<Rightarrow> nat \<Rightarrow> 'a list res" where
  "memcpy dest doff src soff n = rbind (mem_read src soff n) (mem_write dest doff)"

definition memset :: "'a list \<Rightarrow> nat \<Rightarrow> 'a \<Rightarrow> nat \<Rightarrow> 'a list res" where
  "memset dest off v n = mem_write dest off (replicate n v)"

lemma load_ok [simp]: "i < length b \<Longrightarrow> load b i = Inr (b ! i)"
  by (simp add: load_def)

lemma load_err [simp]: "length b \<le> i \<Longrightarrow> load b i = Inl OutOfBounds"
  by (simp add: load_def)

lemma store_ok [simp]: "i < length b \<Longrightarrow> store b i v = Inr (b[i := v])"
  by (simp add: store_def)

lemma store_err [simp]: "length b \<le> i \<Longrightarrow> store b i v = Inl OutOfBounds"
  by (simp add: store_def)

lemma mem_read_ok [mem_simps]: "off + n \<le> length b \<Longrightarrow> mem_read b off n = Inr (segment b off n)"
  by (simp add: mem_read_def)

lemma mem_read_err [mem_simps]: "length b < off + n \<Longrightarrow> mem_read b off n = Inl OutOfBounds"
  by (simp add: mem_read_def)

lemma mem_write_ok [mem_simps]: "off + length xs \<le> length b \<Longrightarrow> mem_write b off xs = Inr (patch b off xs)"
  by (simp add: mem_write_def)

lemma mem_write_err [mem_simps]: "length b < off + length xs \<Longrightarrow> mem_write b off xs = Inl OutOfBounds"
  by (simp add: mem_write_def)

lemma memcpy_ok [mem_simps]:
  "soff + n \<le> length src \<Longrightarrow> doff + n \<le> length dest
   \<Longrightarrow> memcpy dest doff src soff n = Inr (patch dest doff (segment src soff n))"
  by (simp add: memcpy_def mem_simps)

lemma memcpy_err [mem_simps]:
  "length src < soff + n \<or> length dest < doff + n \<Longrightarrow> memcpy dest doff src soff n = Inl OutOfBounds"
  by (cases "soff + n \<le> length src") (auto simp: memcpy_def mem_simps)

lemma memset_ok [mem_simps]: "off + n \<le> length dest \<Longrightarrow> memset dest off v n = Inr (patch dest off (replicate n v))"
  by (simp add: memset_def mem_simps)

lemma memset_err [mem_simps]: "length dest < off + n \<Longrightarrow> memset dest off v n = Inl OutOfBounds"
  by (simp add: memset_def mem_simps)

lemma patch_nth_split: "off < length b \<Longrightarrow> patch b off (x # xs) = patch (b[off := x]) (Suc off) xs"
  by (simp add: patch_def take_Suc_conv_app_nth upd_conv_take_nth_drop add.commute)

lemma list_update_patch: "i < length b \<Longrightarrow> b[i := v] = patch b i [v]"
  by (simp add: patch_def upd_conv_take_nth_drop)

lemma patch_append:
  "off + length xs + length ys \<le> length b \<Longrightarrow> patch (patch b off xs) (off + length xs) ys = patch b off (xs @ ys)"
  by (cases xs) (auto simp: patch_def min_def ac_simps)

lemma patch_commute:
  assumes "off + length xs \<le> off'" "off' + length ys \<le> length b"
  shows "patch (patch b off xs) off' ys = patch (patch b off' ys) off xs"
  using assms by (intro nth_equalityI) (auto simp: mem_simps nth_patch)

subsection \<open>Words\<close>

lemma ucast_mask_byte [simp]: "ucast ((a :: 'a::len word) AND 0xFF) = (ucast a :: uchar)"
proof -
  have eq: "(0xFF :: 'a word) = mask 8" by (simp add: mask_eq_exp_minus_1)
  show ?thesis
    unfolding eq by (rule bit_word_eqI) (auto simp: bit_simps dest: bit_imp_le_length)
qed

lemma unat_ushort_less: "unat (x :: ushort) < 65536"
  using unsigned_less [of x] by simp

lemma unat_ucast_ushort: "unat (ucast (x :: ushort) :: uint) = unat x"
  using unat_ushort_less [of x] by (simp add: unsigned_ucast_eq take_bit_eq_mod)

lemma unat_small:
  "unat (1 :: uint) = Suc 0" "unat (2 :: uint) = Suc (Suc 0)" "unat (3 :: uint) = Suc (Suc (Suc 0))"
  by simp_all

subsection \<open>State machines\<close>

text \<open>The states that can be reached from an initial state, together with that state.\<close>

inductive reach :: "('s \<Rightarrow> bool) \<Rightarrow> ('s \<Rightarrow> 's \<Rightarrow> bool) \<Rightarrow> 's \<Rightarrow> 's \<Rightarrow> bool" for init step where
  start: "init s \<Longrightarrow> reach init step s s"
| further: "reach init step s t \<Longrightarrow> step t u \<Longrightarrow> reach init step s u"

text \<open>The contract of an invariant, which may mention the initial state.\<close>

locale inv_system =
  fixes init :: "'s \<Rightarrow> bool" and step :: "'s \<Rightarrow> 's \<Rightarrow> bool" and inv :: "'s \<Rightarrow> 's \<Rightarrow> bool"
  assumes holds_initially: "init s \<Longrightarrow> inv s s"
    and kept: "init s \<Longrightarrow> inv s t \<Longrightarrow> step t u \<Longrightarrow> inv s u"
begin

lemma reach_init: "reach init step s t \<Longrightarrow> init s"
  by (induction rule: reach.induct)

lemma reach_inv: "reach init step s t \<Longrightarrow> inv s t"
proof (induction rule: reach.induct)
  case (further s t u)
  then show ?case using kept reach_init by blast
qed (rule holds_initially)

end

end
