(* ===== verification/Util.thy ===== *)
theory Util
  imports Prelude
begin

text \<open>
  \<^verbatim>\<open>src/src/util.c\<close>: hexadecimal text and the byte/integer conversions every serialised
  structure of the program goes through.

  \<^verbatim>\<open>ntohl\<close> and \<^verbatim>\<open>ntohs\<close> are functions of the standard library whose effect depends on the
  byte order of the host, so \<open>btoui\<close> and \<open>btous\<close> take it as an argument. A pointer argument
  \<^verbatim>\<open>&dest[p]\<close> is the buffer and the offset \<open>p\<close>.
\<close>

subsection \<open>Hexadecimal digits\<close>

definition hexc_to_nibble :: "uchar \<Rightarrow> uchar" where
  "hexc_to_nibble c =
     (if 48 \<le> c \<and> c \<le> 57 then c - 48
      else if 97 \<le> c \<and> c \<le> 102 then c - 97 + 10
      else if 65 \<le> c \<and> c \<le> 70 then c - 65 + 10
      else 255)"

definition nibble_to_hexc :: "uchar \<Rightarrow> uchar" where
  "nibble_to_hexc n = (if 0 \<le> n \<and> n \<le> 9 then n + 48 else n + 97 - 10)"

text \<open>
  The two loops keep \<^verbatim>\<open>byte_pos\<close> and \<^verbatim>\<open>str_pos\<close>; the first argument counts the iterations
  left, \<^verbatim>\<open>bytes - byte_pos\<close>.
\<close>

primrec hexstr_to_bytes_loop :: "nat \<Rightarrow> nat \<Rightarrow> nat \<Rightarrow> bytes \<Rightarrow> bytes \<Rightarrow> bytes res" where
  "hexstr_to_bytes_loop 0 byte_pos str_pos bytearr string = Inr bytearr"
| "hexstr_to_bytes_loop (Suc n) byte_pos str_pos bytearr string =
     rbind (load string str_pos) (\<lambda>hi.
     rbind (load string (str_pos + 1)) (\<lambda>lo.
     rbind (store bytearr byte_pos (push_bit 4 (hexc_to_nibble hi) OR hexc_to_nibble lo)) (\<lambda>bytearr.
     hexstr_to_bytes_loop n (byte_pos + 1) (str_pos + 2) bytearr string)))"

definition hexstr_to_bytes :: "bytes \<Rightarrow> bytes \<Rightarrow> nat \<Rightarrow> bytes res" where
  "hexstr_to_bytes bytearr string bytes = hexstr_to_bytes_loop bytes 0 0 bytearr string"

primrec bytes_to_hexstr_loop :: "nat \<Rightarrow> nat \<Rightarrow> nat \<Rightarrow> bytes \<Rightarrow> bytes \<Rightarrow> bytes res" where
  "bytes_to_hexstr_loop 0 byte_pos str_pos string bytearr = Inr string"
| "bytes_to_hexstr_loop (Suc n) byte_pos str_pos string bytearr =
     rbind (load bytearr byte_pos) (\<lambda>b.
     rbind (store string str_pos (nibble_to_hexc (drop_bit 4 b))) (\<lambda>string.
     rbind (store string (str_pos + 1) (nibble_to_hexc b)) (\<lambda>string.
     bytes_to_hexstr_loop n (byte_pos + 1) (str_pos + 2) string bytearr)))"

definition bytes_to_hexstr :: "bytes \<Rightarrow> bytes \<Rightarrow> nat \<Rightarrow> bytes res" where
  "bytes_to_hexstr string bytearr bytes = bytes_to_hexstr_loop bytes 0 0 string bytearr"

text \<open>\<^verbatim>\<open>get_curr_time\<close>, on the value of \<^verbatim>\<open>time(NULL)\<close>.\<close>

definition get_curr_time :: "int \<Rightarrow> uint" where
  "get_curr_time t = word_of_int t"

subsection \<open>Byte order\<close>

definition be32 :: "uchar \<Rightarrow> uchar \<Rightarrow> uchar \<Rightarrow> uchar \<Rightarrow> uint" where
  "be32 b0 b1 b2 b3 =
     push_bit 24 (ucast b0) OR push_bit 16 (ucast b1) OR push_bit 8 (ucast b2) OR ucast b3"

definition be16 :: "uchar \<Rightarrow> uchar \<Rightarrow> ushort" where
  "be16 b0 b1 = push_bit 8 (ucast b0) OR ucast b1"

definition bswap32 :: "uint \<Rightarrow> uint" where
  "bswap32 a = be32 (ucast a) (ucast (drop_bit 8 a)) (ucast (drop_bit 16 a)) (ucast (drop_bit 24 a))"

definition bswap16 :: "ushort \<Rightarrow> ushort" where
  "bswap16 a = be16 (ucast a) (ucast (drop_bit 8 a))"

fun ntohl :: "endian \<Rightarrow> uint \<Rightarrow> uint" where
  "ntohl Little a = bswap32 a"
| "ntohl Big a = a"

fun ntohs :: "endian \<Rightarrow> ushort \<Rightarrow> ushort" where
  "ntohs Little a = bswap16 a"
| "ntohs Big a = a"

subsection \<open>Bytes to integers and back\<close>

definition btoui :: "endian \<Rightarrow> bytes \<Rightarrow> nat \<Rightarrow> uint res" where
  "btoui e bytes off =
     rbind (load bytes off) (\<lambda>b0.
     rbind (load bytes (off + 1)) (\<lambda>b1.
     rbind (load bytes (off + 2)) (\<lambda>b2.
     rbind (load bytes (off + 3)) (\<lambda>b3.
     Inr (ntohl e (be32 b0 b1 b2 b3))))))"

definition btous :: "endian \<Rightarrow> bytes \<Rightarrow> nat \<Rightarrow> ushort res" where
  "btous e bytes off =
     rbind (load bytes off) (\<lambda>b0.
     rbind (load bytes (off + 1)) (\<lambda>b1.
     Inr (ntohs e (be16 b0 b1))))"

definition ustob :: "ushort \<Rightarrow> bytes \<Rightarrow> nat \<Rightarrow> bytes res" where
  "ustob a dest off =
     rbind (store dest off (ucast (drop_bit 8 a AND 0xFF))) (\<lambda>dest.
     store dest (off + 1) (ucast (a AND 0xFF)))"

definition uitob :: "uint \<Rightarrow> bytes \<Rightarrow> nat \<Rightarrow> bytes res" where
  "uitob a dest off =
     rbind (store dest off (ucast (drop_bit 24 a AND 0xFF))) (\<lambda>dest.
     rbind (store dest (off + 1) (ucast (drop_bit 16 a AND 0xFF))) (\<lambda>dest.
     rbind (store dest (off + 2) (ucast (drop_bit 8 a AND 0xFF))) (\<lambda>dest.
     store dest (off + 3) (ucast (a AND 0xFF)))))"

subsection \<open>Word lemmas\<close>

lemma byte_index_cases:
  assumes "n < (32::nat)"
  obtains m where "m < 8" "n = m" | m where "m < 8" "n = 8 + m"
    | m where "m < 8" "n = 16 + m" | m where "m < 8" "n = 24 + m"
proof -
  have "n div 8 = 0 \<or> n div 8 = 1 \<or> n div 8 = 2 \<or> n div 8 = 3" using assms by linarith
  then show ?thesis
    using that(1)[of "n mod 8"] that(2)[of "n mod 8"] that(3)[of "n mod 8"] that(4)[of "n mod 8"]
      mult_div_mod_eq[of 8 n] by fastforce
qed

lemma bit_be32:
  "m < 8 \<Longrightarrow> bit (be32 b0 b1 b2 b3) m = bit b3 m"
  "m < 8 \<Longrightarrow> bit (be32 b0 b1 b2 b3) (8 + m) = bit b2 m"
  "m < 8 \<Longrightarrow> bit (be32 b0 b1 b2 b3) (16 + m) = bit b1 m"
  "m < 8 \<Longrightarrow> bit (be32 b0 b1 b2 b3) (24 + m) = bit b0 m"
  by (auto simp: be32_def bit_simps dest: bit_imp_le_length)

lemma be32_bytes: 
  "be32 (ucast (drop_bit 24 a)) (ucast (drop_bit 16 a)) (ucast (drop_bit 8 a)) (ucast a) = a"
proof (rule bit_word_eqI)
  fix n assume "n < LENGTH(32)"
  then have "n < 32" by simp
  then show "bit (be32 (ucast (drop_bit 24 a)) (ucast (drop_bit 16 a)) (ucast (drop_bit 8 a)) (ucast a)) n = bit a n"
    by (cases rule: byte_index_cases) (auto simp: bit_be32 bit_simps)
qed

lemma byte_be32 [simp]:
  "ucast (be32 b0 b1 b2 b3) = b3"
  "ucast (drop_bit 8 (be32 b0 b1 b2 b3)) = b2"
  "ucast (drop_bit 16 (be32 b0 b1 b2 b3)) = b1"
  "ucast (drop_bit 24 (be32 b0 b1 b2 b3)) = b0"
  by (rule bit_word_eqI; simp add: bit_be32 bit_unsigned_iff bit_drop_bit_eq)+

lemma be16_bytes: "be16 (ucast (drop_bit 8 a)) (ucast a) = a"
  by (rule bit_word_eqI) (auto simp: be16_def bit_simps)

lemma byte_be16 [simp]:
  "ucast (be16 b0 b1) = b1"
  "ucast (drop_bit 8 (be16 b0 b1)) = b0"
  by (rule bit_word_eqI; auto simp: be16_def bit_simps dest: bit_imp_le_length)+

lemma bswap32_be32: "bswap32 (be32 b0 b1 b2 b3) = be32 b3 b2 b1 b0"
  by (simp add: bswap32_def)

lemma bswap32_bswap32 [simp]: "bswap32 (bswap32 a) = a"
  by (simp add: bswap32_def be32_bytes)

lemma bswap16_bswap16 [simp]: "bswap16 (bswap16 a) = a"
  by (simp add: bswap16_def be16_bytes)

lemma ntohl_ntohl [simp]: "ntohl e (ntohl e a) = a"
  by (cases e) simp_all

lemma ntohs_ntohs [simp]: "ntohs e (ntohs e a) = a"
  by (cases e) simp_all

subsection \<open>The contract of a fixed-width field\<close>

text \<open>
  What the serialisation code relies on when it writes an integer at a position of a buffer and
  reads it back: the writer fills exactly \<open>width\<close> bytes with \<open>enc a\<close> or fails, the reader looks at
  exactly these bytes, and reading what was written gives \<open>conv a\<close>.
\<close>

locale field_codec =
  fixes put :: "'a \<Rightarrow> bytes \<Rightarrow> nat \<Rightarrow> bytes res"
    and get :: "bytes \<Rightarrow> nat \<Rightarrow> 'a res"
    and width :: nat
    and enc :: "'a \<Rightarrow> bytes"
    and dec :: "bytes \<Rightarrow> 'a"
    and conv :: "'a \<Rightarrow> 'a"
  assumes put_ok: "off + width \<le> length b \<Longrightarrow> put a b off = Inr (patch b off (enc a))"
    and put_err: "length b < off + width \<Longrightarrow> put a b off = Inl OutOfBounds"
    and get_ok: "off + width \<le> length b \<Longrightarrow> get b off = Inr (conv (dec (segment b off width)))"
    and get_err: "length b < off + width \<Longrightarrow> get b off = Inl OutOfBounds"
    and length_enc: "length (enc a) = width"
    and dec_enc: "dec (enc a) = a"
begin

lemma get_after_put:
  "off + width \<le> length b \<Longrightarrow> rbind (put a b off) (\<lambda>b'. get b' off) = Inr (conv a)"
  by (simp add: put_ok get_ok length_enc dec_enc mem_simps)

lemma get_patched_field:
  "off + width \<le> length b \<Longrightarrow> get (patch b off (enc a)) off = Inr (conv a)"
  by (simp add: get_ok length_enc dec_enc mem_simps)

lemma get_patched_elsewhere:
  assumes "off + length xs \<le> length b" "off' + width \<le> length b"
    and "off' + width \<le> off \<or> off + length xs \<le> off'"
  shows "get (patch b off xs) off' = get b off'"
  using assms by (simp add: get_ok mem_simps)

lemma put_total_iff: "(\<exists>b'. put a b off = Inr b') \<longleftrightarrow> off + width \<le> length b"
  by (cases "off + width \<le> length b") (auto simp: put_ok put_err not_le)

end

text \<open>The four- and the two-byte conversions of \<^verbatim>\<open>util.c\<close> are such fields.\<close>

definition enc32 :: "uint \<Rightarrow> bytes" where
  "enc32 a = [ucast (drop_bit 24 a), ucast (drop_bit 16 a), ucast (drop_bit 8 a), ucast a]"

text \<open>The bytes of a \<^verbatim>\<open>uint\<close> in memory.\<close>

fun host_bytes :: "endian \<Rightarrow> uint \<Rightarrow> bytes" where
  "host_bytes Big a = enc32 a"
| "host_bytes Little a = rev (enc32 a)"

definition dec32 :: "bytes \<Rightarrow> uint" where
  "dec32 b = be32 (b ! 0) (b ! 1) (b ! 2) (b ! 3)"

definition enc16 :: "ushort \<Rightarrow> bytes" where
  "enc16 a = [ucast (drop_bit 8 a), ucast a]"

definition dec16 :: "bytes \<Rightarrow> ushort" where
  "dec16 b = be16 (b ! 0) (b ! 1)"

lemma length_enc32 [simp]: "length (enc32 a) = 4"
  by (simp add: enc32_def)

lemma length_enc16 [simp]: "length (enc16 a) = 2"
  by (simp add: enc16_def)

lemma dec32_enc32 [simp]: "dec32 (enc32 a) = a"
  by (simp add: dec32_def enc32_def be32_bytes)

lemma dec16_enc16 [simp]: "dec16 (enc16 a) = a"
  by (simp add: dec16_def enc16_def be16_bytes)

lemma list_eq_4: "length xs = 4 \<Longrightarrow> xs = [xs ! 0, xs ! 1, xs ! 2, xs ! 3]"
  by (auto simp: numeral_eq_Suc length_Suc_conv)

lemma enc32_dec32 [simp]: "length xs = 4 \<Longrightarrow> enc32 (dec32 xs) = xs"
  by (subst (2) list_eq_4) (auto simp: enc32_def dec32_def)

lemma uitob_ok: "off + 4 \<le> length b \<Longrightarrow> uitob a b off = Inr (patch b off (enc32 a))"
  by (simp add: uitob_def enc32_def patch_nth_split numeral_eq_Suc)

lemma uitob_err: "length b < off + 4 \<Longrightarrow> uitob a b off = Inl OutOfBounds"
  by (cases "off < length b"; cases "off + 1 < length b"; cases "off + 2 < length b")
    (auto simp: uitob_def store_def)

lemma ustob_ok: "off + 2 \<le> length b \<Longrightarrow> ustob a b off = Inr (patch b off (enc16 a))"
  by (simp add: ustob_def enc16_def patch_nth_split)

lemma ustob_err: "length b < off + 2 \<Longrightarrow> ustob a b off = Inl OutOfBounds"
  by (cases "off < length b") (auto simp: ustob_def store_def)

lemma btoui_ok: "off + 4 \<le> length b \<Longrightarrow> btoui e b off = Inr (ntohl e (dec32 (segment b off 4)))"
  by (simp add: btoui_def dec32_def mem_simps)

lemma btoui_err: "length b < off + 4 \<Longrightarrow> btoui e b off = Inl OutOfBounds"
  by (cases "off < length b"; cases "off + 1 < length b"; cases "off + 2 < length b")
    (auto simp: btoui_def load_def)

lemma btous_ok: "off + 2 \<le> length b \<Longrightarrow> btous e b off = Inr (ntohs e (dec16 (segment b off 2)))"
  by (simp add: btous_def dec16_def mem_simps)

lemma btous_err: "length b < off + 2 \<Longrightarrow> btous e b off = Inl OutOfBounds"
  by (cases "off < length b") (auto simp: btous_def load_def)

interpretation u32: field_codec uitob "btoui e" 4 enc32 dec32 "ntohl e" for e
  by unfold_locales (simp_all add: uitob_ok uitob_err btoui_ok btoui_err)

interpretation u16: field_codec ustob "btous e" 2 enc16 dec16 "ntohs e" for e
  by unfold_locales (simp_all add: ustob_ok ustob_err btous_ok btous_err)

text \<open>The writes that succeed, and what they leave.\<close>

lemma writes_Inr:
  "ustob v b off = Inr b' \<longleftrightarrow> off + 2 \<le> length b \<and> b' = patch b off (enc16 v)"
  "uitob u b off = Inr b' \<longleftrightarrow> off + 4 \<le> length b \<and> b' = patch b off (enc32 u)"
  "memcpy d doff src soff n = Inr d' \<longleftrightarrow> soff + n \<le> length src \<and> doff + n \<le> length d \<and> d' = patch d doff (segment src soff n)"
  "memset d doff x n = Inr d' \<longleftrightarrow> doff + n \<le> length d \<and> d' = patch d doff (replicate n x)"
  "store d i x = Inr d' \<longleftrightarrow> i < length d \<and> d' = d[i := x]"
proof -
  show "ustob v b off = Inr b' \<longleftrightarrow> off + 2 \<le> length b \<and> b' = patch b off (enc16 v)"
    by (cases "off + 2 \<le> length b") (auto simp: ustob_ok ustob_err)
  show "uitob u b off = Inr b' \<longleftrightarrow> off + 4 \<le> length b \<and> b' = patch b off (enc32 u)"
    by (cases "off + 4 \<le> length b") (auto simp: uitob_ok uitob_err)
  show "memcpy d doff src soff n = Inr d' \<longleftrightarrow> soff + n \<le> length src \<and> doff + n \<le> length d \<and> d' = patch d doff (segment src soff n)"
    by (cases "soff + n \<le> length src \<and> doff + n \<le> length d") (auto simp: memcpy_ok memcpy_err not_le)
  show "memset d doff x n = Inr d' \<longleftrightarrow> doff + n \<le> length d \<and> d' = patch d doff (replicate n x)"
    by (cases "doff + n \<le> length d") (auto simp: memset_ok memset_err)
  show "store d i x = Inr d' \<longleftrightarrow> i < length d \<and> d' = d[i := x]"
    by (auto simp: store_def)
qed

lemmas codec_simps = uitob_ok ustob_ok u32.get_patched_field u16.get_patched_field
  u32.get_patched_elsewhere u16.get_patched_elsewhere

text \<open>
  C24. Writing a 32-bit integer with \<^verbatim>\<open>uitob\<close> at a position of a buffer and reading it back there
  with \<^verbatim>\<open>btoui\<close> never fails inside the buffer and gives the integer itself on a big-endian host, but the integer
  with its four bytes reversed on a little-endian host: \<^verbatim>\<open>btoui\<close> assembles the big-endian
  bytes by shifts, which is already independent of the host, and then swaps once more.
\<close>

theorem btoui_uitob_roundtrip:
  assumes "off + 4 \<le> length b"
  shows "rbind (uitob a b off) (\<lambda>b'. btoui Big b' off) = Inr a
       \<and> rbind (uitob a b off) (\<lambda>b'. btoui Little b' off) = Inr (bswap32 a)"
  using u32.get_after_put [OF assms] by simp

theorem btoui_uitob_roundtrip_witness:
  "rbind (uitob 1 [9, 0, 0, 0, 0, 9] 1) (\<lambda>b'. btoui Big b' 1) = Inr 1
   \<and> rbind (uitob 1 [9, 0, 0, 0, 0, 9] 1) (\<lambda>b'. btoui Little b' 1) = Inr 0x01000000"
proof -
  have "bswap32 1 = 0x01000000" by (simp add: bswap32_def be32_def)
  with btoui_uitob_roundtrip [of 1 "[9, 0, 0, 0, 0, 9]" 1] show ?thesis by simp
qed

subsection \<open>Hexadecimal text\<close>

text \<open>What the two loops compute, as lists.\<close>

definition hex_pair :: "uchar \<Rightarrow> bytes" where
  "hex_pair b = [nibble_to_hexc (drop_bit 4 b), nibble_to_hexc b]"

definition unhex_pair :: "uchar \<Rightarrow> uchar \<Rightarrow> uchar" where
  "unhex_pair hi lo = push_bit 4 (hexc_to_nibble hi) OR hexc_to_nibble lo"

lemma bytes_to_hexstr_loop_eq:
  "bp + n \<le> length ba \<Longrightarrow> sp + 2 * n \<le> length str
   \<Longrightarrow> bytes_to_hexstr_loop n bp sp str ba
     = Inr (patch str sp (concat (map hex_pair (segment ba bp n))))"
proof (induction n arbitrary: bp sp str)
  case 0
  then show ?case by (simp add: segment_def)
next
  case (Suc n)
  have "segment ba bp (Suc n) = ba ! bp # segment ba (bp + 1) n"
    using Suc.prems by (simp add: segment_def Cons_nth_drop_Suc [symmetric])
  then show ?case
    using Suc by (simp add: hex_pair_def patch_nth_split)
qed

lemma hexstr_to_bytes_loop_eq:
  "bp + n \<le> length ba \<Longrightarrow> sp + 2 * n \<le> length str
   \<Longrightarrow> hexstr_to_bytes_loop n bp sp ba str
     = Inr (patch ba bp (map (\<lambda>i. unhex_pair (str ! (sp + 2 * i)) (str ! (sp + 2 * i + 1))) [0..<n]))"
proof (induction n arbitrary: bp sp ba)
  case 0
  then show ?case by simp
next
  case (Suc n)
  have "map (\<lambda>i. unhex_pair (str ! (sp + 2 * i)) (str ! (sp + 2 * i + 1))) [0..<Suc n]
      = unhex_pair (str ! sp) (str ! (sp + 1))
        # map (\<lambda>i. unhex_pair (str ! (sp + 2 + 2 * i)) (str ! (sp + 2 + 2 * i + 1))) [0..<n]"
    by (simp add: upt_conv_Cons map_Suc_upt [symmetric] del: upt_Suc)
  then show ?case
    using Suc by (simp add: unhex_pair_def patch_nth_split del: upt_Suc)
qed

lemma nth_concat_pairs:
  "(\<And>x. x \<in> set xs \<Longrightarrow> length (f x) = 2) \<Longrightarrow> i < length xs \<Longrightarrow> j < 2
   \<Longrightarrow> concat (map f xs) ! (2 * i + j) = f (xs ! i) ! j"
proof (induction xs arbitrary: i)
  case (Cons x xs)
  then show ?case by (cases i) (auto simp: nth_append)
qed simp

lemma length_concat_hex: "length (concat (map hex_pair bs)) = 2 * length bs"
  by (induction bs) (auto simp: hex_pair_def)

definition hex_safe :: "uchar \<Rightarrow> bool" where
  "hex_safe b \<longleftrightarrow> b < 16 \<or> (234 \<le> b \<and> b \<le> 239) \<or> b = 255"

definition hex_pair_ok :: "uchar \<Rightarrow> bool" where
  "hex_pair_ok b \<longleftrightarrow> (unhex_pair (nibble_to_hexc (drop_bit 4 b)) (nibble_to_hexc b) = b) = hex_safe b"

lemma upt_256: "[0..<256] = 0 # 1 # [2..<256]"
  by (simp add: upt_conv_Cons)

lemma hex_pair_ok_all: "list_all hex_pair_ok (map word_of_nat [0..<256])"
  by (simp add: upt_256 upt_rec_numeral hex_pair_ok_def unhex_pair_def nibble_to_hexc_def hexc_to_nibble_def hex_safe_def)

lemma byte_enum: "(b :: uchar) \<in> set (map word_of_nat [0..<256])"
proof -
  have "unat b < 256" using unsigned_less [of b] by simp
  then show ?thesis
    by (intro image_eqI [where x = "unat b" and f = word_of_nat, THEN subst [OF set_map [symmetric], where P = "\<lambda>S. b \<in> S"]]) simp_all
qed

lemma unhex_hex_pair:
  "unhex_pair (nibble_to_hexc (drop_bit 4 b)) (nibble_to_hexc b) = b \<longleftrightarrow> hex_safe b"
  using hex_pair_ok_all byte_enum [of b] unfolding list_all_iff hex_pair_ok_def by blast

lemma map_nth_upt_eq: "map (\<lambda>i. f (xs ! i)) [0..<length xs] = map f xs"
  by (rule nth_equalityI) simp_all

lemma hexstr_of_pairs:
  assumes two: "\<And>b. length (f b) = 2" and dst: "length dst = length bs"
  shows "hexstr_to_bytes dst (concat (map f bs)) (length bs) = Inr (map (\<lambda>b. unhex_pair (f b ! 0) (f b ! 1)) bs)"
proof -
  let ?s = "concat (map f bs)"
  have "length ?s = 2 * length bs" by (induction bs) (auto simp: two)
  then have "hexstr_to_bytes dst ?s (length bs) = Inr (map (\<lambda>i. unhex_pair (?s ! (2 * i)) (?s ! (2 * i + 1))) [0..<length bs])"
    using dst by (simp add: hexstr_to_bytes_def hexstr_to_bytes_loop_eq patch_def)
  moreover have "unhex_pair (?s ! (2 * i)) (?s ! (2 * i + 1)) = unhex_pair (f (bs ! i) ! 0) (f (bs ! i) ! 1)" if "i < length bs" for i
    using nth_concat_pairs [of bs f i 0] nth_concat_pairs [of bs f i 1] that two by simp
  then have "map (\<lambda>i. unhex_pair (?s ! (2 * i)) (?s ! (2 * i + 1))) [0..<length bs]
      = map (\<lambda>i. unhex_pair (f (bs ! i) ! 0) (f (bs ! i) ! 1)) [0..<length bs]"
    by (intro map_cong refl) simp
  ultimately show ?thesis by (simp only: map_nth_upt_eq [of "\<lambda>b. unhex_pair (f b ! 0) (f b ! 1)"])
qed

lemma hex_roundtrip_eq:
  assumes "length str = 2 * length bs" "length dst = length bs"
  shows "rbind (bytes_to_hexstr str bs (length bs)) (\<lambda>s. hexstr_to_bytes dst s (length bs))
       = Inr (map (\<lambda>b. unhex_pair (nibble_to_hexc (drop_bit 4 b)) (nibble_to_hexc b)) bs)"
proof -
  have "bytes_to_hexstr str bs (length bs) = Inr (concat (map hex_pair bs))"
    using assms(1) by (simp add: bytes_to_hexstr_def bytes_to_hexstr_loop_eq segment_def patch_def length_concat_hex)
  then show ?thesis using hexstr_of_pairs [of hex_pair dst bs] assms(2) by (simp add: hex_pair_def)
qed



end
