(* ===== verification/Bignum.thy ===== *)
theory Bignum
  imports Prelude
begin

text \<open>
  \<^verbatim>\<open>src/src/bignum.c\<close>: multi-byte numbers. \<open>big_mult\<close> is the schoolbook product on
  little-endian digits to base 256 with 16-bit intermediate values, \<open>big_div\<close> is a stub
  that leaves its result buffer alone, \<open>big_compare\<close> compares from the first byte on.
\<close>

subsection \<open>Operations\<close>

text \<open>
  The inner loop of \<^verbatim>\<open>big_mult\<close>; the first argument is the number of iterations left,
  \<^verbatim>\<open>w - (i + j)\<close>. The C expression is computed in \<^verbatim>\<open>int\<close> and stored in a \<^verbatim>\<open>uint16_t\<close>, which is
  the sum modulo \<open>2 ^ 16\<close>.
\<close>

primrec big_mult_row ::
  "nat \<Rightarrow> nat \<Rightarrow> nat \<Rightarrow> ushort \<Rightarrow> bytes \<Rightarrow> bytes \<Rightarrow> bytes \<Rightarrow> bytes res" where
  "big_mult_row 0 j i carry a b res = Inr res"
| "big_mult_row (Suc k) j i carry a b res =
     rbind (load res (i + j)) (\<lambda>r.
     rbind (load a j) (\<lambda>x.
     rbind (load b i) (\<lambda>y.
     let n = carry + ucast r + ucast x * ucast y in
     rbind (store res (i + j) (ucast (n AND 0xFF))) (\<lambda>res.
     big_mult_row k j (i + 1) (drop_bit 8 n) a b res))))"

text \<open>The outer loop; the first argument is \<^verbatim>\<open>w - j\<close>.\<close>

primrec big_mult_rows :: "nat \<Rightarrow> nat \<Rightarrow> bytes \<Rightarrow> bytes \<Rightarrow> bytes \<Rightarrow> bytes res" where
  "big_mult_rows 0 j a b res = Inr res"
| "big_mult_rows (Suc k) j a b res =
     rbind (big_mult_row (Suc k) j 0 0 a b res) (\<lambda>res.
     big_mult_rows k (j + 1) a b res)"

definition big_mult :: "bytes \<Rightarrow> nat \<Rightarrow> bytes \<Rightarrow> nat \<Rightarrow> bytes \<Rightarrow> bytes res" where
  "big_mult a a_bytes b b_bytes res =
     (let w = a_bytes + b_bytes in
      rbind (memset res 0 0 w) (\<lambda>res.
      big_mult_rows w 0 a b res))"

definition big_div :: "bytes \<Rightarrow> bytes \<Rightarrow> bytes \<Rightarrow> bytes res" where
  "big_div a b res = Inr res"

text \<open>\<^verbatim>\<open>big_compare\<close>; the first argument of the loop is \<^verbatim>\<open>bytes - i\<close>.\<close>

primrec big_compare_loop :: "nat \<Rightarrow> nat \<Rightarrow> bytes \<Rightarrow> bytes \<Rightarrow> int res" where
  "big_compare_loop 0 i a b = Inr 0"
| "big_compare_loop (Suc n) i a b =
     rbind (load a i) (\<lambda>x.
     rbind (load b i) (\<lambda>y.
     if x < y then Inr (-1)
     else if y < x then Inr 1
     else big_compare_loop n (i + 1) a b))"

definition big_compare :: "bytes \<Rightarrow> bytes \<Rightarrow> nat \<Rightarrow> int res" where
  "big_compare a b bytes = big_compare_loop bytes 0 a b"

subsection \<open>The numbers the buffers stand for\<close>

primrec le_val :: "bytes \<Rightarrow> nat" where
  "le_val [] = 0"
| "le_val (x # xs) = unat x + 256 * le_val xs"

definition be_val :: "bytes \<Rightarrow> nat" where
  "be_val xs = le_val (rev xs)"

lemma unat_byte_less [simp]: "unat (x :: uchar) < 256"
  using unsigned_less [of x] by simp

lemma le_val_less: "le_val xs < 256 ^ length xs"
proof (induction xs)
  case (Cons x xs)
  have "unat x < 256" by simp
  with Cons.IH show ?case by (simp, linarith)
qed simp

lemma le_val_append: "le_val (xs @ ys) = le_val xs + 256 ^ length xs * le_val ys"
  by (induction xs) (auto simp: algebra_simps)

lemma le_val_zeros [simp]: "le_val (replicate n 0) = 0"
  by (induction n) auto

lemma le_val_split: "n \<le> length xs \<Longrightarrow> le_val xs = le_val (take n xs) + 256 ^ n * le_val (drop n xs)"
  using le_val_append [of "take n xs" "drop n xs"] by (simp add: min_def)

lemma le_val_take_mod: "n \<le> length xs \<Longrightarrow> le_val (take n xs) = le_val xs mod 256 ^ n"
  using le_val_split [of n xs] le_val_less [of "take n xs"] by (simp add: min_absorb2)

lemma be_val_Cons: "be_val (x # xs) = unat x * 256 ^ length xs + be_val xs"
  by (simp add: be_val_def le_val_append algebra_simps)

lemma be_val_less: "be_val xs < 256 ^ length xs"
  using le_val_less [of "rev xs"] by (simp add: be_val_def)

subsection \<open>Multiplication\<close>

text \<open>One digit step: the 16-bit accumulator never overflows when the carry is a byte.\<close>

lemma digit_step:
  fixes carry :: ushort and r x y :: uchar
  assumes "unat carry < 256"
  defines "n \<equiv> carry + ucast r + ucast x * ucast y"
  shows "unat n = unat carry + unat r + unat x * unat y"
    and "unat (ucast (n AND 0xFF) :: uchar) + 256 * unat (drop_bit 8 n) = unat n"
    and "unat (drop_bit 8 n) < 256"
proof -
  have "unat x \<le> 255" "unat y \<le> 255" "unat r \<le> 255"
    using unat_byte_less [of x] unat_byte_less [of y] unat_byte_less [of r] by linarith+
  then have xy: "unat x * unat y \<le> 255 * 255" by (intro mult_le_mono)
  show n: "unat n = unat carry + unat r + unat x * unat y"
    using assms(1) xy \<open>unat r \<le> 255\<close> \<open>unat x \<le> 255\<close> \<open>unat y \<le> 255\<close>
    by (simp add: n_def unat_word_ariths unsigned_ucast_eq take_bit_eq_mod)
  have "unat (ucast (n AND 0xFF) :: uchar) = unat n mod 256"
    by (simp add: unsigned_ucast_eq take_bit_eq_mod)
  moreover have d: "unat (drop_bit 8 n) = unat n div 256"
    by (simp add: drop_bit_eq_div unat_div)
  ultimately show "unat (ucast (n AND 0xFF) :: uchar) + 256 * unat (drop_bit 8 n) = unat n"
    by simp
  have "unat n < 65536" using unsigned_less [of n] by simp
  then show "unat (drop_bit 8 n) < 256" by (simp add: d less_mult_imp_div_less)
qed

lemma segment_Suc: "off < length b \<Longrightarrow> segment b off (Suc n) = b ! off # segment b (Suc off) n"
  by (simp add: segment_def Cons_nth_drop_Suc [symmetric])

text \<open>One row: the digits from \<open>i + j\<close> on become the old ones plus the carry plus \<open>a ! j\<close> times \<open>b\<close>.\<close>

lemma big_mult_row_ok:
  assumes "j < length a" "i + k \<le> length b" "i + j + k \<le> length res" "unat carry < 256"
  shows "\<exists>ds c. big_mult_row k j i carry a b res = Inr (patch res (i + j) ds) \<and> length ds = k
       \<and> le_val ds + 256 ^ k * c
         = unat carry + le_val (segment res (i + j) k) + unat (a ! j) * le_val (segment b i k)"
  using assms
proof (induction k arbitrary: i carry res)
  case 0
  then show ?case by (intro exI [of _ "[]"] exI [of _ "unat carry"]) (simp add: segment_def)
next
  case (Suc k)
  let ?n = "carry + ucast (res ! (i + j)) + ucast (a ! j) * ucast (b ! i) :: ushort"
  let ?d = "ucast (?n AND 0xFF) :: uchar"
  let ?res = "res[i + j := ?d]"
  note step = digit_step [OF Suc.prems(4), of "res ! (i + j)" "a ! j" "b ! i"]
  obtain ds c where ds: "big_mult_row k j (Suc i) (drop_bit 8 ?n) a b ?res = Inr (patch ?res (Suc i + j) ds)"
    "length ds = k"
    "le_val ds + 256 ^ k * c = unat (drop_bit 8 ?n) + le_val (segment ?res (Suc i + j) k)
       + unat (a ! j) * le_val (segment b (Suc i) k)"
    using Suc.IH [of "Suc i" ?res "drop_bit 8 ?n"] Suc.prems step(3) by auto
  have seg: "segment ?res (Suc i + j) k = segment res (Suc i + j) k"
    using Suc.prems by (intro nth_equalityI) (auto simp: mem_simps)
  have "unat ?d + 256 * (le_val ds + 256 ^ k * c)
      = unat carry + le_val (segment res (i + j) (Suc k)) + unat (a ! j) * le_val (segment b i (Suc k))"
    using step(1,2) Suc.prems unfolding ds(3) seg by (simp add: segment_Suc algebra_simps)
  moreover have "big_mult_row (Suc k) j i carry a b res = Inr (patch res (i + j) (?d # ds))"
    using ds(1) Suc.prems by (simp add: Let_def patch_nth_split)
  ultimately show ?case
    using ds(2) by (intro exI [of _ "?d # ds"] exI [of _ c]) (simp add: algebra_simps)
qed

lemma row_arith:
  fixes D R T A B c P Q S :: nat
  assumes "D + Q * c = R + A * B"
  shows "(T + P * D) + P * Q * (c + A * S) = (T + P * R) + P * A * (B + Q * S)"
proof -
  have "P * D + P * (Q * c) = P * R + P * (A * B)"
    using arg_cong [OF assms, of "(*) P"] by (simp only: distrib_left)
  then show ?thesis by (simp only: distrib_left mult.assoc mult.left_commute add.assoc)
qed

lemma big_mult_rows_ok:
  assumes "j + k \<le> length a" "k \<le> length b" "length res = j + k"
  shows "\<exists>res'. big_mult_rows k j a b res = Inr res' \<and> length res' = j + k
       \<and> le_val res' mod 256 ^ (j + k)
         = (le_val res + 256 ^ j * le_val (segment a j k) * le_val b) mod 256 ^ (j + k)"
  using assms
proof (induction k arbitrary: j res)
  case 0
  then show ?case by (simp add: segment_def)
next
  case (Suc k)
  let ?M = "256 ^ (j + Suc k) :: nat"
  obtain ds c where ds: "big_mult_row (Suc k) j 0 0 a b res = Inr (patch res j ds)" "length ds = Suc k"
    "le_val ds + 256 ^ Suc k * c = le_val (drop j res) + unat (a ! j) * le_val (take (Suc k) b)"
    using big_mult_row_ok [of j a 0 "Suc k" b res 0] Suc.prems by (auto simp: segment_def)
  have patched: "le_val (patch res j ds) = le_val (take j res) + 256 ^ j * le_val ds"
    using Suc.prems(3) ds(2) by (simp add: patch_def le_val_append min_def)
  have res: "le_val res = le_val (take j res) + 256 ^ j * le_val (drop j res)"
    using Suc.prems(3) by (simp add: le_val_split)
  have b: "le_val b = le_val (take (Suc k) b) + 256 ^ Suc k * le_val (drop (Suc k) b)"
    using Suc.prems(2) by (rule le_val_split)
  have "le_val (patch res j ds) + 256 ^ j * 256 ^ Suc k * (c + unat (a ! j) * le_val (drop (Suc k) b))
      = le_val res + 256 ^ j * unat (a ! j) * le_val b"
    unfolding patched res b using ds(3) by (rule row_arith)
  then have row: "(le_val res + 256 ^ j * unat (a ! j) * le_val b) mod ?M = le_val (patch res j ds) mod ?M"
    unfolding power_add by (metis mod_mult_self2)
  have "length (patch res j ds) = j + 1 + k"
    using Suc.prems(3) ds(2) by (simp add: mem_simps)
  then obtain res' where res': "big_mult_rows k (j + 1) a b (patch res j ds) = Inr res'" "length res' = j + Suc k"
    "le_val res' mod ?M = (le_val (patch res j ds) + 256 ^ (j + 1) * le_val (segment a (j + 1) k) * le_val b) mod ?M"
    using Suc.IH [of "j + 1" "patch res j ds"] Suc.prems(1,2) by fastforce
  have "le_val (segment a j (Suc k)) = unat (a ! j) + 256 * le_val (segment a (j + 1) k)"
    using Suc.prems(1) by (simp add: segment_Suc)
  then have "le_val res + 256 ^ j * le_val (segment a j (Suc k)) * le_val b
      = (le_val res + 256 ^ j * unat (a ! j) * le_val b) + 256 ^ (j + 1) * le_val (segment a (j + 1) k) * le_val b"
    by (simp add: distrib_left distrib_right mult.left_commute)
  then have "le_val res' mod ?M = (le_val res + 256 ^ j * le_val (segment a j (Suc k)) * le_val b) mod ?M"
    unfolding res'(3) by (simp only: mod_add_cong [OF row refl])
  with ds(1) res'(1,2) show ?case by (simp del: big_mult_row.simps)
qed

lemma big_mult_mod:
  assumes "a_bytes + b_bytes \<le> length a" "a_bytes + b_bytes \<le> length b"
    "length res = a_bytes + b_bytes"
  shows "\<exists>res'. big_mult a a_bytes b b_bytes res = Inr res' \<and> length res' = a_bytes + b_bytes
       \<and> le_val res' = (le_val (take (a_bytes + b_bytes) a) * le_val b) mod 256 ^ (a_bytes + b_bytes)"
proof -
  define w where "w = a_bytes + b_bytes"
  have "memset res 0 0 w = Inr (replicate w 0)"
    using assms(3) by (simp add: w_def memset_def mem_simps patch_def)
  moreover obtain res' where "big_mult_rows w 0 a b (replicate w 0) = Inr res'" "length res' = w"
    "le_val res' mod 256 ^ w = (le_val (take w a) * le_val b) mod 256 ^ w"
    using big_mult_rows_ok [of 0 w a b "replicate w 0"] assms(1,2)
    by (auto simp: segment_def w_def [symmetric])
  moreover have "le_val res' mod 256 ^ w = le_val res'"
    using le_val_less [of res'] \<open>length res' = w\<close> by simp
  ultimately show ?thesis
    unfolding w_def [symmetric] by (simp add: big_mult_def Let_def w_def [symmetric])
qed

text \<open>A read past the end of \<open>b\<close> stops a row, whatever else is in bounds.\<close>

lemma big_mult_row_overread:
  "i \<le> length b \<Longrightarrow> length b < i + k \<Longrightarrow> big_mult_row k j i carry a b res = Inl OutOfBounds"
proof (induction k arbitrary: i carry res)
  case (Suc k)
  then show ?case
    by (cases "i + j < length res"; cases "j < length a"; cases "i < length b") (simp_all add: Let_def)
qed simp

subsection \<open>Properties\<close>



text \<open>
  Operands that are exactly as long as the lengths passed for them are not enough:
  the loops run to \<^verbatim>\<open>w = a_bytes + b_bytes\<close> in both operands, so \<^verbatim>\<open>big_mult\<close> reads past the end of \<open>b\<close> whenever
  \<open>a_bytes\<close> is positive.
\<close>

lemma big_mult_overreads:
  assumes "length b = b_bytes" "0 < a_bytes" "a_bytes + b_bytes \<le> length res"
  shows "big_mult a a_bytes b b_bytes res = Inl OutOfBounds"
proof -
  obtain k where k: "a_bytes + b_bytes = Suc k" using assms(2) by (cases "a_bytes + b_bytes") auto
  have "big_mult_row (Suc k) 0 0 0 a b res' = Inl OutOfBounds" for res'
    using assms k by (intro big_mult_row_overread) simp_all
  then show ?thesis
    using assms(3) by (simp add: big_mult_def Let_def k mem_simps del: big_mult_row.simps)
qed

lemma big_mult_overreads_witness:
  "big_mult [2, 0] 2 [3, 0] 2 [0, 0, 0, 0] = Inl OutOfBounds"
  using big_mult_overreads [of "[3, 0]" 2 2 "[0, 0, 0, 0]" "[2, 0]"] by simp

lemma big_compare_loop_eq:
  "i + n \<le> length a \<Longrightarrow> i + n \<le> length b
   \<Longrightarrow> big_compare_loop n i a b
     = Inr (sgn (int (be_val (segment a i n)) - int (be_val (segment b i n))))"
proof (induction n arbitrary: i)
  case 0
  then show ?case by (simp add: segment_def be_val_def)
next
  case (Suc n)
  let ?A = "be_val (segment a (Suc i) n)" and ?B = "be_val (segment b (Suc i) n)"
  have bounds: "?A < 256 ^ n" "?B < 256 ^ n"
    using be_val_less [of "segment a (Suc i) n"] be_val_less [of "segment b (Suc i) n"] Suc.prems
    by (simp_all add: mem_simps)
  have seg: "be_val (segment a i (Suc n)) = unat (a ! i) * 256 ^ n + ?A"
    "be_val (segment b i (Suc n)) = unat (b ! i) * 256 ^ n + ?B"
    using Suc.prems by (simp_all add: segment_Suc be_val_Cons mem_simps)
  have less: "x * 256 ^ n + p < y * 256 ^ n + q" if "x < y" "p < 256 ^ n" for x y p q :: nat
  proof -
    have "x * 256 ^ n + p < Suc x * 256 ^ n" using that by simp
    also have "\<dots> \<le> y * 256 ^ n" using that by (intro mult_right_mono) auto
    finally show ?thesis by simp
  qed
  consider "a ! i < b ! i" | "b ! i < a ! i" | "a ! i = b ! i" by fastforce
  then show ?case
  proof cases
    case 1
    then have "be_val (segment a i (Suc n)) < be_val (segment b i (Suc n))"
      unfolding seg using bounds by (intro less) (simp_all add: word_less_nat_alt)
    with 1 Suc.prems show ?thesis by simp
  next
    case 2
    then have "be_val (segment b i (Suc n)) < be_val (segment a i (Suc n))"
      unfolding seg using bounds by (intro less) (simp_all add: word_less_nat_alt)
    with 2 Suc.prems show ?thesis by (simp add: order_less_not_sym)
  next
    case 3
    then show ?thesis using Suc by (simp add: seg)
  qed
qed

text \<open>
  \<^verbatim>\<open>big_compare\<close> returns the sign of the difference of its operands read as
  big-endian numbers, for operands of at least \<open>bytes\<close> bytes.
\<close>

lemma big_compare_correct:
  assumes "bytes \<le> length a" "bytes \<le> length b"
  shows "big_compare a b bytes = Inr (sgn (int (be_val (take bytes a)) - int (be_val (take bytes b))))"
  using big_compare_loop_eq [of 0 bytes a b] assms by (simp add: big_compare_def segment_def)

lemma big_compare_correct_witness: "big_compare [1, 0] [0, 255] 2 = Inr 1"
  using big_compare_correct [of 2 "[1, 0]" "[0, 255]"] by (simp add: be_val_def)

end
