(* ===== verification/Arrays.thy ===== *)
theory Arrays
  imports Prelude
begin

text \<open>
  \<^verbatim>\<open>src/include/array.h\<close>, \<^verbatim>\<open>src/src/array.c\<close>: fixed-size elements packed in a caller's
  buffer; the limbo database keeps its block hashes in them.

  An \<^verbatim>\<open>Array\<close> is passed by value, so the functions change the memory its \<^verbatim>\<open>data\<close> field points
  to and a copy of the header that is lost on return. The field \<^verbatim>\<open>data\<close> is an offset into the
  buffer \<open>mem\<close>. \<^verbatim>\<open>array.c\<close> also uses a field \<^verbatim>\<open>size\<close> that the struct of \<^verbatim>\<open>array.h\<close> does not
  declare; it is part of the record here. A function that reaches its closing brace without a
  \<^verbatim>\<open>return\<close> yields no value, which is \<open>None\<close>.
\<close>

record c_array =
  length_f :: uint
  usize_f :: ushort
  size_f :: uint
  data_f :: nat

definition array_init :: "nat \<Rightarrow> ushort \<Rightarrow> uint \<Rightarrow> uint \<Rightarrow> c_array" where
  "array_init data usize len sz = \<lparr>length_f = len, usize_f = usize, size_f = sz, data_f = data\<rparr>"

text \<open>\<^verbatim>\<open>memcmp(&(a.data[a.usize * i]), data, a.usize)\<close>, true when the bytes differ.\<close>

definition slot_differs :: "c_array \<Rightarrow> bytes \<Rightarrow> bytes \<Rightarrow> nat \<Rightarrow> bool res" where
  "slot_differs a mem data i =
     (let u = unat (usize_f a) in
      rbind (mem_read mem (data_f a + u * i) u) (\<lambda>x.
      rbind (mem_read data 0 u) (\<lambda>y. Inr (x \<noteq> y))))"

text \<open>The existence check of \<^verbatim>\<open>array_add\<close>: \<open>True\<close> when it returns 1. First argument: \<^verbatim>\<open>a.size - i\<close>.\<close>

primrec array_add_check :: "nat \<Rightarrow> nat \<Rightarrow> c_array \<Rightarrow> bytes \<Rightarrow> bytes \<Rightarrow> bool res" where
  "array_add_check 0 i a mem data = Inr False"
| "array_add_check (Suc n) i a mem data =
     rbind (slot_differs a mem data i) (\<lambda>differs.
     if differs then Inr True else array_add_check n (i + 1) a mem data)"

definition array_add :: "c_array \<Rightarrow> bytes \<Rightarrow> bytes \<Rightarrow> (int option \<times> bytes) res" where
  "array_add a mem data =
     (if (ucast (usize_f a) + 1) * length_f a \<ge> size_f a then Inr (Some 1, mem)
      else
        rbind (array_add_check (unat (size_f a)) 0 a mem data) (\<lambda>found.
        if found then Inr (Some 1, mem)
        else
          rbind (memcpy mem (data_f a + unat (ucast (usize_f a) * length_f a)) data 0 (unat (usize_f a)))
            (\<lambda>mem. Inr (None, mem))))"

text \<open>
  The loop of \<^verbatim>\<open>array_del\<close>: it runs over all \<^verbatim>\<open>size\<close> slots and does not stop at a match. The
  local \<^verbatim>\<open>length\<close> is a 32-bit value and wraps. First argument: \<^verbatim>\<open>a.size - i\<close>.
\<close>

primrec array_del_loop :: "nat \<Rightarrow> nat \<Rightarrow> uint \<Rightarrow> c_array \<Rightarrow> bytes \<Rightarrow> bytes \<Rightarrow> bytes res" where
  "array_del_loop 0 i len a mem data = Inr mem"
| "array_del_loop (Suc n) i len a mem data =
     rbind (slot_differs a mem data i) (\<lambda>differs.
     if differs then
       rbind (if len > 1 \<and> word_of_nat i \<noteq> len - 1
              then rbind (mem_read mem (data_f a + unat (ucast (usize_f a) * (len - 1))) (unat (usize_f a)))
                     (mem_write mem (data_f a + unat (usize_f a) * i))
              else Inr mem) (\<lambda>mem.
       array_del_loop n (i + 1) (len - 1) a mem data)
     else array_del_loop n (i + 1) len a mem data)"

definition array_del :: "c_array \<Rightarrow> bytes \<Rightarrow> bytes \<Rightarrow> bytes res" where
  "array_del a mem data = array_del_loop (unat (size_f a)) 0 (length_f a) a mem data"

subsection \<open>Slots\<close>

definition slot :: "c_array \<Rightarrow> bytes \<Rightarrow> nat \<Rightarrow> bytes" where
  "slot a mem i = segment mem (data_f a + unat (usize_f a) * i) (unat (usize_f a))"

definition slot_in :: "c_array \<Rightarrow> bytes \<Rightarrow> nat \<Rightarrow> bool" where
  "slot_in a mem i \<longleftrightarrow> data_f a + unat (usize_f a) * i + unat (usize_f a) \<le> length mem"

text \<open>All \<open>size\<close> slots lie inside the buffer.\<close>

definition array_wf :: "c_array \<Rightarrow> bytes \<Rightarrow> bool" where
  "array_wf a mem \<longleftrightarrow> data_f a + unat (usize_f a) * unat (size_f a) \<le> length mem"

lemma slot_differs_eq:
  "slot_in a mem i \<Longrightarrow> unat (usize_f a) \<le> length data
   \<Longrightarrow> slot_differs a mem data i = Inr (slot a mem i \<noteq> take (unat (usize_f a)) data)"
  by (simp add: slot_differs_def slot_in_def slot_def Let_def mem_simps) (simp add: segment_def)

lemma slot_differs_Inr:
  "slot_differs a mem data i = Inr d
   \<longleftrightarrow> slot_in a mem i \<and> unat (usize_f a) \<le> length data \<and> d = (slot a mem i \<noteq> take (unat (usize_f a)) data)"
  by (auto simp: slot_differs_def slot_in_def slot_def Let_def mem_read_def segment_def)

lemma slot_in_mono: "slot_in a mem j \<Longrightarrow> i \<le> j \<Longrightarrow> slot_in a mem i"
  unfolding slot_in_def by (meson add_le_mono le_refl mult_le_mono order_trans)

lemma slot_write_other:
  assumes "slot_in a mem i" "slot_in a mem j" "i \<noteq> j" "length xs = unat (usize_f a)"
  shows "slot a (patch mem (data_f a + unat (usize_f a) * i) xs) j = slot a mem j"
proof -
  let ?u = "unat (usize_f a)"
  have "?u * i + ?u \<le> ?u * j \<or> ?u * j + ?u \<le> ?u * i"
    using assms(3) by (metis add.commute linorder_neqE_nat mult_Suc_right mult_le_mono2 Suc_leI)
  then show ?thesis
    using assms unfolding slot_def slot_in_def by (intro segment_patch_other) auto
qed

subsection \<open>Insertion\<close>

lemma array_add_check_False:
  "array_add_check n i a mem data = Inr False \<Longrightarrow> i \<le> k \<Longrightarrow> k < i + n
   \<Longrightarrow> slot_in a mem k \<and> unat (usize_f a) \<le> length data \<and> slot a mem k = take (unat (usize_f a)) data"
proof (induction n arbitrary: i)
  case (Suc n)
  from Suc.prems(1) have i: "slot_in a mem i" "unat (usize_f a) \<le> length data"
    "slot a mem i = take (unat (usize_f a)) data" "array_add_check n (i + 1) a mem data = Inr False"
    by (auto simp: rbind_eq_Inr slot_differs_Inr split: if_splits)
  show ?case
  proof (cases "k = i")
    case True
    with i show ?thesis by simp
  next
    case False
    with Suc i(4) show ?thesis by simp
  qed
qed simp

lemma array_add_same:
  assumes "(unat (usize_f a) + 1) * unat (length_f a) < 2 ^ 32"
    and "array_add a mem data = Inr (r, mem')"
  shows "mem' = mem"
proof (cases "(ucast (usize_f a) + 1) * length_f a \<ge> size_f a \<or> r = Some 1")
  case True
  with assms(2) show ?thesis by (auto simp: array_add_def rbind_eq_Inr split: if_splits)
next
  case False
  let ?u = "unat (usize_f a)" and ?len = "unat (length_f a)"
  have u: "unat (ucast (usize_f a) :: uint) = ?u" "?u < 2 ^ 16"
    using unat_ushort_less [of "usize_f a"] by (simp_all add: unat_ucast_ushort)
  have "unat ((ucast (usize_f a) + 1) * length_f a) = (?u + 1) * ?len"
    using assms(1) u by (simp add: unat_word_ariths)
  with False have "(?u + 1) * ?len < unat (size_f a)" by (simp add: not_le word_less_nat_alt)
  then have len: "?len < unat (size_f a)" by (simp add: add.commute trans_le_add2)
  have pos: "unat (ucast (usize_f a) * length_f a) = ?u * ?len"
    using assms(1) u by (simp add: unat_word_ariths)
  from False assms(2) have chk: "array_add_check (unat (size_f a)) 0 a mem data = Inr False"
    and w: "memcpy mem (data_f a + ?u * ?len) data 0 ?u = Inr mem'"
    by (auto simp: array_add_def rbind_eq_Inr pos split: if_splits)
  from array_add_check_False [OF chk, of ?len] len
  have "slot_in a mem ?len" "?u \<le> length data" "slot a mem ?len = segment data 0 ?u"
    by (simp_all add: segment_def)
  with w show ?thesis
    by (simp add: slot_in_def slot_def mem_simps flip: \<open>slot a mem ?len = segment data 0 ?u\<close>)
qed

text \<open>
  \<^verbatim>\<open>array_add\<close> never changes the buffer: the existence check has the sense of
  \<^verbatim>\<open>memcmp\<close> inverted and runs over all \<^verbatim>\<open>size\<close> slots, so the element is written only when
  every slot, the one written to among them, already holds it. (The hypothesis says that the
  overflow check itself does not overflow 32 bits.)
\<close>

lemma array_add_changes_nothing:
  assumes "(unat (usize_f a) + 1) * unat (length_f a) < 2 ^ 32"
    and "array_add a mem data = Inr (r, mem')"
  shows "mem' = mem"
  using array_add_same [OF assms] .

lemma array_add_changes_nothing_witness:
  "array_add (array_init 0 1 1 3) [5, 6, 7] [9] = Inr (Some 1, [5, 6, 7])"
proof -
  have "(unat (usize_f (array_init 0 1 1 3)) + 1) * unat (length_f (array_init 0 1 1 3)) < 2 ^ 32"
    by (simp add: array_init_def)
  moreover have "\<exists>mem'. array_add (array_init 0 1 1 3) [5, 6, 7] [9] = Inr (Some 1, mem')"
    by (simp add: array_add_def array_init_def) (simp add: numeral_3_eq_3 slot_differs_def mem_read_def segment_def)
  ultimately show ?thesis using array_add_changes_nothing by metis
qed

subsection \<open>Deletion\<close>

lemma slot_in_length: "length mem' = length mem \<Longrightarrow> slot_in a mem' k = slot_in a mem k"
  by (simp add: slot_in_def)

text \<open>One iteration writes slot \<open>i\<close> at most, and only when it does not hold \<open>data\<close>.\<close>

lemma array_del_loop_slots:
  assumes "array_del_loop n i len a mem data = Inr mem'" "slot_in a mem k"
    and "k < i \<or> slot a mem k = take (unat (usize_f a)) data"
  shows "slot a mem' k = slot a mem k"
  using assms
proof (induction n arbitrary: i len mem)
  case (Suc n)
  let ?D = "take (unat (usize_f a)) data"
  let ?src = "data_f a + unat (ucast (usize_f a) * (len - 1))" and ?dst = "data_f a + unat (usize_f a) * i"
  from Suc.prems(1) have i: "slot_in a mem i" by (auto simp: rbind_eq_Inr slot_differs_Inr)
  show ?case
  proof (cases "slot a mem i \<noteq> ?D \<and> len > 1 \<and> word_of_nat i \<noteq> len - 1")
    case True
    with Suc.prems(1) obtain xs mem1 where xs: "mem_read mem ?src (unat (usize_f a)) = Inr xs"
      and mem1: "mem_write mem ?dst xs = Inr mem1" and rest: "array_del_loop n (i + 1) (len - 1) a mem1 data = Inr mem'"
      by (auto simp: rbind_eq_Inr slot_differs_Inr split: if_splits)
    have lxs: "length xs = unat (usize_f a)"
      using xs by (auto simp: mem_read_def mem_simps split: if_splits)
    have m1: "mem1 = patch mem ?dst xs" "length mem1 = length mem"
      using mem1 by (auto simp: mem_write_def mem_simps split: if_splits)
    have "k \<noteq> i" using True Suc.prems(3) by auto
    then have "slot a mem1 k = slot a mem k"
      unfolding m1(1) using i Suc.prems(2) lxs by (intro slot_write_other) auto
    moreover have "k < i + 1 \<or> slot a mem1 k = ?D" using Suc.prems(3) calculation by auto
    moreover have "slot_in a mem1 k" using Suc.prems(2) m1(2) slot_in_length by blast
    ultimately show ?thesis
      using Suc.IH [OF rest] by metis
  next
    case False
    with Suc.prems(1) obtain len' where "array_del_loop n (i + 1) len' a mem data = Inr mem'"
      by (auto simp: rbind_eq_Inr slot_differs_Inr split: if_splits)
    from Suc.IH [OF this] Suc.prems(2,3) show ?thesis by auto
  qed
qed simp

lemma array_del_first:
  assumes "array_del a mem data = Inr mem'" "0 < unat (size_f a)" "2 \<le> unat (length_f a)"
    and "unat (usize_f a) * (unat (length_f a) - 1) < 2 ^ 32"
    and "slot a mem 0 \<noteq> take (unat (usize_f a)) data"
  shows "slot a mem' 0 = slot a mem (unat (length_f a) - 1)"
proof -
  let ?u = "unat (usize_f a)" and ?l = "unat (length_f a)"
  obtain n where n: "unat (size_f a) = Suc n" using assms(2) gr0_conv_Suc by blast
  have u: "unat (ucast (usize_f a) :: uint) = ?u" by (rule unat_ucast_ushort)
  have one: "1 < length_f a" using assms(3) by (simp add: word_less_nat_alt)
  then have l1: "unat (length_f a - 1) = ?l - 1"
    by (simp add: unat_sub word_le_nat_alt word_less_nat_alt)
  then have ne: "0 \<noteq> length_f a - 1" using assms(3) by auto
  have pos: "unat (ucast (usize_f a) * (length_f a - 1)) = ?u * (?l - 1)"
    using assms(4) by (simp add: unat_word_ariths(2) u l1)
  from assms(1,5) one ne obtain xs mem1 where
    s0: "slot_in a mem 0" and xs: "mem_read mem (data_f a + ?u * (?l - 1)) ?u = Inr xs"
    and w: "mem_write mem (data_f a) xs = Inr mem1"
    and rest: "array_del_loop n 1 (length_f a - 1) a mem1 data = Inr mem'"
    by (auto simp: array_del_def n rbind_eq_Inr slot_differs_Inr pos split: if_splits)
  have xs': "xs = slot a mem (?l - 1)" "length xs = ?u"
    using xs by (auto simp: mem_read_def slot_def mem_simps split: if_splits)
  have m1: "mem1 = patch mem (data_f a) xs" "length mem1 = length mem" "slot_in a mem1 0"
    using w s0 by (auto simp: mem_write_def mem_simps slot_in_def split: if_splits)
  have "slot a mem' 0 = slot a mem1 0"
    using rest m1(3) by (rule array_del_loop_slots) simp
  also have "\<dots> = xs"
    using m1(1) s0 xs'(2) by (simp add: slot_def slot_in_def mem_simps)
  finally show ?thesis using xs'(1) by simp
qed

text \<open>
  \<^verbatim>\<open>array_del\<close> does not delete: every slot that holds the element before the call
  still holds it afterwards, while a first slot that holds something else is overwritten by the last element (for
  an array of at least two elements), so that element is lost. \<^verbatim>\<open>memcmp\<close> is tested with its sense inverted.
\<close>

lemma array_del_keeps_the_element:
  assumes "array_del a mem data = Inr mem'"
    and "0 < unat (size_f a)" "2 \<le> unat (length_f a)"
    and "unat (usize_f a) * (unat (length_f a) - 1) < 2 ^ 32"
  shows "(\<forall>k. slot_in a mem k \<and> slot a mem k = take (unat (usize_f a)) data \<longrightarrow> slot a mem' k = slot a mem k)
       \<and> (slot a mem 0 \<noteq> take (unat (usize_f a)) data \<longrightarrow> slot a mem' 0 = slot a mem (unat (length_f a) - 1))"
proof -
  have "slot a mem' k = slot a mem k"
    if "slot_in a mem k \<and> slot a mem k = take (unat (usize_f a)) data" for k
    using array_del_loop_slots [of "unat (size_f a)" 0 "length_f a" a mem data mem' k] assms(1) that
    by (simp add: array_del_def)
  with array_del_first [OF assms] show ?thesis by blast
qed

lemma two_steps: "array_del_loop 2 i len a mem data = array_del_loop (Suc (Suc 0)) i len a mem data"
  by (simp only: numeral_2_eq_2)

lemma array_del_keeps_the_element_witness:
  "array_del (array_init 0 1 2 2) [5, 6] [6] = Inr [6, 6]
   \<and> slot (array_init 0 1 2 2) [6, 6] 0 = slot (array_init 0 1 2 2) [5, 6] 1"
proof -
  have d: "array_del (array_init 0 1 2 2) [5, 6] [6] = Inr [6, 6]"
    by (simp add: array_del_def array_init_def)
      (simp add: slot_differs_def mem_read_def mem_write_def segment_def patch_def two_steps)
  have "slot (array_init 0 1 2 2) [5, 6] 0 \<noteq> take (unat (usize_f (array_init 0 1 2 2))) [6]"
    by (simp add: slot_def array_init_def segment_def)
  with array_del_keeps_the_element [OF d] d show ?thesis by (simp add: array_init_def)
qed

end
