(* ===== verification/Crypto.thy ===== *)
theory Crypto
  imports Util
begin

unbundle bit_operations_syntax

text \<open>
  \<^verbatim>\<open>src/include/crypto.h\<close>, \<^verbatim>\<open>src/src/crypto.c\<close>: the SHA-256 implementation behind block hashes,
  transaction hashes and Merkle roots.

  The first part transcribes the C code on its context record. The second part is the hash as
  the standard defines it, a fold of the compression function over the padded message. The third part relates
  them: the streaming interface absorbs a message in any pieces, and \<open>sha256_final\<close> leaves in the context
  the state words of the standard. What \<open>sha256_final\<close> writes to \<^verbatim>\<open>hash\<close> is another matter (see
  \<open>sha256_output\<close>).
\<close>

subsection \<open>The context\<close>

record sha256_ctx =
  data_c :: bytes
  datalen :: uint
  bitlen0 :: uint
  bitlen1 :: uint
  state :: "uint list"

subsection \<open>Macros\<close>

definition DBL_INT_ADD :: "uint \<Rightarrow> uint \<Rightarrow> uint \<Rightarrow> uint \<times> uint" where
  "DBL_INT_ADD a b c = (a + c, if a > 0xFFFFFFFF - c then b + 1 else b)"

definition ROTRIGHT :: "uint \<Rightarrow> nat \<Rightarrow> uint" where
  "ROTRIGHT a b = (drop_bit b a OR push_bit (32 - b) a)"

definition CH :: "uint \<Rightarrow> uint \<Rightarrow> uint \<Rightarrow> uint" where
  "CH x y z = ((x AND y) XOR (NOT x AND z))"

definition MAJ :: "uint \<Rightarrow> uint \<Rightarrow> uint \<Rightarrow> uint" where
  "MAJ x y z = ((x AND y) XOR (x AND z) XOR (y AND z))"

definition EP0 :: "uint \<Rightarrow> uint" where
  "EP0 x = (ROTRIGHT x 2 XOR ROTRIGHT x 13 XOR ROTRIGHT x 22)"

definition EP1 :: "uint \<Rightarrow> uint" where
  "EP1 x = (ROTRIGHT x 6 XOR ROTRIGHT x 11 XOR ROTRIGHT x 25)"

definition SIG0 :: "uint \<Rightarrow> uint" where
  "SIG0 x = (ROTRIGHT x 7 XOR ROTRIGHT x 18 XOR drop_bit 3 x)"

definition SIG1 :: "uint \<Rightarrow> uint" where
  "SIG1 x = (ROTRIGHT x 17 XOR ROTRIGHT x 19 XOR drop_bit 10 x)"

definition k_table :: "uint list" where
  "k_table = [
    0x428A2F98, 0x71374491, 0xB5C0FBCF, 0xE9B5DBA5,
    0x3956C25B, 0x59F111F1, 0x923F82A4, 0xAB1C5ED5,
    0xD807AA98, 0x12835B01, 0x243185BE, 0x550C7DC3,
    0x72BE5D74, 0x80DEB1FE, 0x9BDC06A7, 0xC19BF174,
    0xE49B69C1, 0xEFBE4786, 0x0FC19DC6, 0x240CA1CC,
    0x2DE92C6F, 0x4A7484AA, 0x5CB0A9DC, 0x76F988DA,
    0x983E5152, 0xA831C66D, 0xB00327C8, 0xBF597FC7,
    0xC6E00BF3, 0xD5A79147, 0x06CA6351, 0x14292967,
    0x27B70A85, 0x2E1B2138, 0x4D2C6DFC, 0x53380D13,
    0x650A7354, 0x766A0ABB, 0x81C2C92E, 0x92722C85,
    0xA2BFE8A1, 0xA81A664B, 0xC24B8B70, 0xC76C51A3,
    0xD192E819, 0xD6990624, 0xF40E3585, 0x106AA070,
    0x19A4C116, 0x1E376C08, 0x2748774C, 0x34B0BCB5,
    0x391C0CB3, 0x4ED8AA4A, 0x5B9CCA4F, 0x682E6FF3,
    0x748F82EE, 0x78A5636F, 0x84C87814, 0x8CC70208,
    0x90BEFFFA, 0xA4506CEB, 0xBEF9A3F7, 0xC67178F2]"

subsection \<open>\<^verbatim>\<open>sha256_transform\<close>\<close>

text \<open>The array \<^verbatim>\<open>m\<close> as the list of its filled part: 16 words of the block, then 48 more.\<close>

definition m_head :: "bytes \<Rightarrow> uint list" where
  "m_head data = map (\<lambda>i. be32 (data ! (4 * i)) (data ! (4 * i + 1)) (data ! (4 * i + 2)) (data ! (4 * i + 3))) [0..<16]"

primrec m_tail :: "nat \<Rightarrow> uint list \<Rightarrow> uint list" where
  "m_tail 0 m = m"
| "m_tail (Suc n) m =
     (let i = length m in
      m_tail n (m @ [SIG1 (m ! (i - 2)) + m ! (i - 7) + SIG0 (m ! (i - 15)) + m ! (i - 16)]))"

type_synonym regs = "uint \<times> uint \<times> uint \<times> uint \<times> uint \<times> uint \<times> uint \<times> uint"

fun transform_round :: "uint list \<Rightarrow> regs \<Rightarrow> nat \<Rightarrow> regs" where
  "transform_round m (a, b, c, d, e, f, g, h) i =
     (let t1 = h + EP1 e + CH e f g + k_table ! i + m ! i;
          t2 = EP0 a + MAJ a b c
      in (t1 + t2, a, b, c, d + t1, e, f, g))"

primrec transform_rounds :: "nat \<Rightarrow> nat \<Rightarrow> uint list \<Rightarrow> regs \<Rightarrow> regs" where
  "transform_rounds 0 i m r = r"
| "transform_rounds (Suc n) i m r = transform_rounds n (i + 1) m (transform_round m r i)"

definition sha256_transform :: "sha256_ctx \<Rightarrow> bytes \<Rightarrow> sha256_ctx res" where
  "sha256_transform ctx data =
     (if length data < 64 \<or> length (state ctx) \<noteq> 8 then Inl OutOfBounds
      else
        let s = state ctx;
            m = m_tail 48 (m_head data);
            (a, b, c, d, e, f, g, h) =
              transform_rounds 64 0 m (s ! 0, s ! 1, s ! 2, s ! 3, s ! 4, s ! 5, s ! 6, s ! 7)
        in Inr (ctx\<lparr>state := [s ! 0 + a, s ! 1 + b, s ! 2 + c, s ! 3 + d,
                              s ! 4 + e, s ! 5 + f, s ! 6 + g, s ! 7 + h]\<rparr>))"

subsection \<open>The streaming interface\<close>

definition sha256_init :: "sha256_ctx \<Rightarrow> sha256_ctx" where
  "sha256_init ctx = ctx\<lparr>datalen := 0, bitlen0 := 0, bitlen1 := 0,
     state := [0x6A09E667, 0xBB67AE85, 0x3C6EF372, 0xA54FF53A,
               0x510E527F, 0x9B05688C, 0x1F83D9AB, 0x5BE0CD19]\<rparr>"

text \<open>The body of the loop of \<^verbatim>\<open>sha256_update\<close> for one byte, then the loop.\<close>

definition sha256_update_byte :: "sha256_ctx \<Rightarrow> uchar \<Rightarrow> sha256_ctx res" where
  "sha256_update_byte ctx b =
     rbind (store (data_c ctx) (unat (datalen ctx)) b) (\<lambda>d.
     let ctx = ctx\<lparr>data_c := d, datalen := datalen ctx + 1\<rparr> in
     if datalen ctx = 64 then
       rbind (sha256_transform ctx (data_c ctx)) (\<lambda>ctx.
       let (b0, b1) = DBL_INT_ADD (bitlen0 ctx) (bitlen1 ctx) 512 in
       Inr (ctx\<lparr>bitlen0 := b0, bitlen1 := b1, datalen := 0\<rparr>))
     else Inr ctx)"

primrec sha256_update_loop :: "nat \<Rightarrow> nat \<Rightarrow> sha256_ctx \<Rightarrow> bytes \<Rightarrow> sha256_ctx res" where
  "sha256_update_loop 0 i ctx data = Inr ctx"
| "sha256_update_loop (Suc n) i ctx data =
     rbind (load data i) (\<lambda>b.
     rbind (sha256_update_byte ctx b) (\<lambda>ctx.
     sha256_update_loop n (i + 1) ctx data))"

text \<open>\<^verbatim>\<open>sha256_update(ctx, &data[off], len)\<close>.\<close>

definition sha256_update :: "sha256_ctx \<Rightarrow> bytes \<Rightarrow> nat \<Rightarrow> nat \<Rightarrow> sha256_ctx res" where
  "sha256_update ctx data off len = sha256_update_loop len off ctx data"

text \<open>\<^verbatim>\<open>while (i < lim) ctx->data[i++] = 0x00;\<close>, first argument \<^verbatim>\<open>lim - i\<close>.\<close>

primrec zero_fill :: "nat \<Rightarrow> nat \<Rightarrow> bytes \<Rightarrow> bytes res" where
  "zero_fill 0 i d = Inr d"
| "zero_fill (Suc n) i d = rbind (store d i 0) (zero_fill n (i + 1))"

definition sha256_final_pad :: "sha256_ctx \<Rightarrow> sha256_ctx res" where
  "sha256_final_pad ctx =
     (let i = unat (datalen ctx) in
      if datalen ctx < 56 then
        rbind (store (data_c ctx) i 0x80) (\<lambda>d.
        rbind (zero_fill (56 - (i + 1)) (i + 1) d) (\<lambda>d.
        Inr (ctx\<lparr>data_c := d\<rparr>)))
      else
        rbind (store (data_c ctx) i 0x80) (\<lambda>d.
        rbind (zero_fill (64 - (i + 1)) (i + 1) d) (\<lambda>d.
        rbind (sha256_transform (ctx\<lparr>data_c := d\<rparr>) d) (\<lambda>ctx.
        rbind (memset (data_c ctx) 0 0 56) (\<lambda>d.
        Inr (ctx\<lparr>data_c := d\<rparr>))))))"

definition sha256_final_length :: "sha256_ctx \<Rightarrow> sha256_ctx res" where
  "sha256_final_length ctx =
     (let (b0, b1) = DBL_INT_ADD (bitlen0 ctx) (bitlen1 ctx) (datalen ctx * 8) in
      rbind (store (data_c ctx) 63 (ucast b0)) (\<lambda>d.
      rbind (store d 62 (ucast (drop_bit 8 b0))) (\<lambda>d.
      rbind (store d 61 (ucast (drop_bit 16 b0))) (\<lambda>d.
      rbind (store d 60 (ucast (drop_bit 24 b0))) (\<lambda>d.
      rbind (store d 59 (ucast b1)) (\<lambda>d.
      rbind (store d 58 (ucast (drop_bit 8 b1))) (\<lambda>d.
      rbind (store d 57 (ucast (drop_bit 16 b1))) (\<lambda>d.
      rbind (store d 56 (ucast (drop_bit 24 b1))) (\<lambda>d.
      Inr (ctx\<lparr>data_c := d, bitlen0 := b0, bitlen1 := b1\<rparr>))))))))))"

text \<open>
  The output loop. The shifts and the mask of the usual serialisation are commented out in the
  source, so each \<^verbatim>\<open>hash[i + 4*j]\<close> gets the low byte of \<^verbatim>\<open>state[j]\<close>.
\<close>

primrec sha256_output_words :: "nat \<Rightarrow> nat \<Rightarrow> nat \<Rightarrow> uint list \<Rightarrow> bytes \<Rightarrow> bytes res" where
  "sha256_output_words 0 j i st hash = Inr hash"
| "sha256_output_words (Suc n) j i st hash =
     rbind (load st j) (\<lambda>w.
     rbind (store hash (i + 4 * j) (ucast w)) (\<lambda>hash.
     sha256_output_words n (j + 1) i st hash))"

primrec sha256_output :: "nat \<Rightarrow> nat \<Rightarrow> uint list \<Rightarrow> bytes \<Rightarrow> bytes res" where
  "sha256_output 0 i st hash = Inr hash"
| "sha256_output (Suc n) i st hash =
     rbind (sha256_output_words 8 0 i st hash) (\<lambda>hash.
     sha256_output n (i + 1) st hash)"

definition sha256_final :: "sha256_ctx \<Rightarrow> bytes \<Rightarrow> (sha256_ctx \<times> bytes) res" where
  "sha256_final ctx hash =
     rbind (sha256_final_pad ctx) (\<lambda>ctx.
     rbind (sha256_final_length ctx) (\<lambda>ctx.
     rbind (sha256_transform ctx (data_c ctx)) (\<lambda>ctx.
     rbind (sha256_output 4 0 (state ctx) hash) (\<lambda>hash.
     Inr (ctx, hash)))))"

text \<open>
  The way every caller uses the interface: \<^verbatim>\<open>sha256_init\<close>, one \<^verbatim>\<open>sha256_update\<close> per piece, \<^verbatim>\<open>sha256_final\<close>. A piece is
  the buffer, the offset of the pointer and the length.
\<close>

primrec sha256_update_all :: "sha256_ctx \<Rightarrow> (bytes \<times> nat \<times> nat) list \<Rightarrow> sha256_ctx res" where
  "sha256_update_all ctx [] = Inr ctx"
| "sha256_update_all ctx (p # ps) =
     (case p of (data, off, len) \<Rightarrow> rbind (sha256_update ctx data off len) (\<lambda>ctx. sha256_update_all ctx ps))"

definition sha256_run :: "sha256_ctx \<Rightarrow> (bytes \<times> nat \<times> nat) list \<Rightarrow> bytes \<Rightarrow> (sha256_ctx \<times> bytes) res" where
  "sha256_run ctx pieces hash =
     rbind (sha256_update_all (sha256_init ctx) pieces) (\<lambda>ctx. sha256_final ctx hash)"

subsection \<open>SHA-256 as the standard states it\<close>

text \<open>
  FIPS 180-4 on lists of bytes: rotation of words, the message schedule by recursion on its index, 64 steps,
  the fold over the blocks of the padded message.
\<close>

definition std_Sigma0 :: "uint \<Rightarrow> uint" where
  "std_Sigma0 x = word_rotr 2 x XOR word_rotr 13 x XOR word_rotr 22 x"

definition std_Sigma1 :: "uint \<Rightarrow> uint" where
  "std_Sigma1 x = word_rotr 6 x XOR word_rotr 11 x XOR word_rotr 25 x"

definition std_sigma0 :: "uint \<Rightarrow> uint" where
  "std_sigma0 x = word_rotr 7 x XOR word_rotr 18 x XOR drop_bit 3 x"

definition std_sigma1 :: "uint \<Rightarrow> uint" where
  "std_sigma1 x = word_rotr 17 x XOR word_rotr 19 x XOR drop_bit 10 x"

fun std_W :: "bytes \<Rightarrow> nat \<Rightarrow> uint" where
  "std_W blk t =
     (if t < 16 then dec32 (segment blk (4 * t) 4)
      else std_sigma1 (std_W blk (t - 2)) + std_W blk (t - 7) + std_sigma0 (std_W blk (t - 15)) + std_W blk (t - 16))"

declare std_W.simps [simp del]

fun std_step :: "bytes \<Rightarrow> regs \<Rightarrow> nat \<Rightarrow> regs" where
  "std_step blk (a, b, c, d, e, f, g, h) t =
     (let T1 = h + std_Sigma1 e + ((e AND f) XOR (NOT e AND g)) + k_table ! t + std_W blk t;
          T2 = std_Sigma0 a + ((a AND b) XOR (a AND c) XOR (b AND c))
      in (T1 + T2, a, b, c, d + T1, e, f, g))"

fun regs_list :: "regs \<Rightarrow> uint list" where
  "regs_list (a, b, c, d, e, f, g, h) = [a, b, c, d, e, f, g, h]"

fun list_regs :: "uint list \<Rightarrow> regs" where
  "list_regs s = (s ! 0, s ! 1, s ! 2, s ! 3, s ! 4, s ! 5, s ! 6, s ! 7)"

definition std_compress :: "uint list \<Rightarrow> bytes \<Rightarrow> uint list" where
  "std_compress H blk = map2 (+) H (regs_list (foldl (std_step blk) (list_regs H) [0..<64]))"

definition std_H0 :: "uint list" where
  "std_H0 = [0x6A09E667, 0xBB67AE85, 0x3C6EF372, 0xA54FF53A,
             0x510E527F, 0x9B05688C, 0x1F83D9AB, 0x5BE0CD19]"

text \<open>The blocks of a message, the last partial one left out.\<close>

definition blocks64 :: "bytes \<Rightarrow> bytes list" where
  "blocks64 xs = map (\<lambda>i. segment xs (64 * i) 64) [0..<length xs div 64]"

text \<open>Padding: a one bit, zeros, and the length in bits as a 64-bit big-endian number.\<close>

definition std_pad :: "bytes \<Rightarrow> bytes" where
  "std_pad msg =
     msg @ [0x80] @ replicate ((119 - length msg mod 64) mod 64) 0
     @ enc32 (word_of_nat (8 * length msg div 2 ^ 32)) @ enc32 (word_of_nat (8 * length msg))"

definition std_sha256_words :: "bytes \<Rightarrow> uint list" where
  "std_sha256_words msg = foldl std_compress std_H0 (blocks64 (std_pad msg))"

subsection \<open>The compression function\<close>

lemma regs_cases:
  obtains a b c d e f g h where "(r :: regs) = (a, b, c, d, e, f, g, h)"
  by (metis surj_pair)

lemma ROTRIGHT_word_rotr:
  assumes "0 < n" "n < 32"
  shows "ROTRIGHT x n = word_rotr n x"
proof (rule bit_word_eqI)
  fix i assume "i < LENGTH(32)"
  then have i: "i < 32" by simp
  have "(i + n) mod 32 = (if i + n < 32 then i + n else i + n - 32)"
    using i assms by (auto simp: mod_if [of "i + n - 32"] le_mod_geq not_less)
  then show "bit (ROTRIGHT x n) i = bit (word_rotr n x) i"
    using i assms bit_imp_le_length [of x "i + n"]
    by (auto simp: ROTRIGHT_def bit_or_iff bit_drop_bit_eq bit_push_bit_iff bit_word_rotr_iff add.commute)
qed

lemma macro_eqs:
  "EP0 = std_Sigma0" "EP1 = std_Sigma1" "SIG0 = std_sigma0" "SIG1 = std_sigma1"
  by (auto simp: EP0_def EP1_def SIG0_def SIG1_def std_Sigma0_def std_Sigma1_def std_sigma0_def std_sigma1_def
      ROTRIGHT_word_rotr)

lemma m_head_eq: "length blk = 64 \<Longrightarrow> m_head blk = map (std_W blk) [0..<16]"
  by (auto simp: m_head_def std_W.simps dec32_def mem_simps)

lemma m_tail_eq: "16 \<le> n \<Longrightarrow> m_tail k (map (std_W blk) [0..<n]) = map (std_W blk) [0..<n + k]"
proof (induction k arbitrary: n)
  case (Suc k)
  have "map (std_W blk) [0..<n] @ [SIG1 (std_W blk (n - 2)) + std_W blk (n - 7) + SIG0 (std_W blk (n - 15)) + std_W blk (n - 16)]
      = map (std_W blk) [0..<Suc n]"
    using Suc.prems by (simp add: macro_eqs std_W.simps [of blk n])
  with Suc.IH [of "Suc n"] Suc.prems show ?case by (simp add: Let_def)
qed simp

lemma transform_round_eq:
  "i < length m \<Longrightarrow> m ! i = std_W blk i \<Longrightarrow> transform_round m r i = std_step blk r i"
  by (cases r rule: regs_cases) (simp add: macro_eqs CH_def MAJ_def Let_def)

lemma transform_rounds_eq:
  assumes "\<And>i. i < length m \<Longrightarrow> m ! i = std_W blk i"
  shows "i + n \<le> length m \<Longrightarrow> transform_rounds n i m r = foldl (std_step blk) r [i..<i + n]"
proof (induction n arbitrary: i r)
  case (Suc n)
  then show ?case
    using assms by (simp add: upt_conv_Cons transform_round_eq del: upt_Suc)
qed simp

lemma length_std_compress [simp]: "length H = 8 \<Longrightarrow> length (std_compress H blk) = 8"
  by (cases "foldl (std_step blk) (list_regs H) [0..<64]" rule: regs_cases) (simp add: std_compress_def)

lemma sha256_transform_eq:
  assumes "length blk = 64" "length (state ctx) = 8"
  shows "sha256_transform ctx blk = Inr (ctx\<lparr>state := std_compress (state ctx) blk\<rparr>)"
proof -
  let ?m = "map (std_W blk) [0..<64]"
  have m: "m_tail 48 (m_head blk) = ?m"
    using m_tail_eq [of 16 48 blk] assms(1) by (simp add: m_head_eq)
  have rounds: "transform_rounds 64 0 ?m (list_regs (state ctx)) = foldl (std_step blk) (list_regs (state ctx)) [0..<64]"
    using transform_rounds_eq [of ?m blk 0 64] by simp
  obtain s0 s1 s2 s3 s4 s5 s6 s7 where s: "state ctx = [s0, s1, s2, s3, s4, s5, s6, s7]"
    using assms(2) by (auto simp: numeral_eq_Suc length_Suc_conv)
  obtain a b c d e f g h where r: "foldl (std_step blk) (s0, s1, s2, s3, s4, s5, s6, s7) [0..<64] = (a, b, c, d, e, f, g, h)"
    by (rule regs_cases)
  show ?thesis
    using assms rounds by (simp add: sha256_transform_def Let_def m std_compress_def r s)
qed

subsection \<open>Streaming\<close>

definition dbl :: "uint \<Rightarrow> uint \<Rightarrow> nat" where
  "dbl lo hi = unat lo + 2 ^ 32 * unat hi"

lemma unat_uint_less: "unat (x :: uint) < 2 ^ 32"
  using unsigned_less [of x] by simp

lemma carry_nat:
  fixes a b c :: nat
  assumes "a < 2 ^ 32" "b < 2 ^ 32" "c < 2 ^ 32" "2 ^ 32 \<le> a + c"
  shows "(a + c - 2 ^ 32) + 2 ^ 32 * (Suc b mod 2 ^ 32) = (a + 2 ^ 32 * b + c) mod 2 ^ 64"
proof (cases "Suc b = 2 ^ 32")
  case True
  then have "a + 2 ^ 32 * b + c = (a + c - 2 ^ 32) + 2 ^ 64" using assms by simp
  moreover have "a + c - 2 ^ 32 < 2 ^ 64" using assms by simp
  ultimately show ?thesis using True by (simp only: mod_add_self2 mod_less mod_self)
next
  case False
  then have "Suc b < 2 ^ 32" using assms(2) by simp
  then show ?thesis using assms by simp
qed

lemma DBL_INT_ADD_dbl:
  "DBL_INT_ADD a b c = (a', b') \<Longrightarrow> dbl a' b' = (dbl a b + unat c) mod 2 ^ 64"
proof -
  assume d: "DBL_INT_ADD a b c = (a', b')"
  have "c \<le> 0xFFFFFFFF" using unat_uint_less [of c] by (simp add: word_le_nat_alt)
  then have m: "unat (0xFFFFFFFF - c) = 2 ^ 32 - 1 - unat c"
    by (simp add: unat_sub)
  show ?thesis
  proof (cases "unat a + unat c < 2 ^ 32")
    case True
    then have "\<not> a > 0xFFFFFFFF - c" by (simp only: word_less_nat_alt m)
    with d True have "unat a' = unat a + unat c" "b' = b"
      by (auto simp: DBL_INT_ADD_def unat_word_ariths)
    moreover have "unat a + unat c + 2 ^ 32 * unat b < 2 ^ 64"
      using True unat_uint_less [of b] by simp
    ultimately show ?thesis by (simp add: dbl_def add.assoc add.commute [of "2 ^ 32 * unat b"])
  next
    case False
    then have "a > 0xFFFFFFFF - c"
      unfolding word_less_nat_alt m using unat_uint_less [of c] by simp
    with d have "a' = a + c" "b' = b + 1" by (auto simp: DBL_INT_ADD_def)
    then have "unat a' = unat a + unat c - 2 ^ 32" "unat b' = Suc (unat b) mod 2 ^ 32"
      using False unat_uint_less [of a] unat_uint_less [of c]
      by (simp_all add: unat_word_ariths mod_if [of "unat a + unat c"])
    then show ?thesis
      using False carry_nat [of "unat a" "unat b" "unat c"] unat_uint_less [of a] unat_uint_less [of b]
        unat_uint_less [of c] unfolding dbl_def by simp
  qed
qed

text \<open>The context has absorbed \<open>msg\<close>: the invariant of the streaming interface.\<close>

definition absorbed :: "bytes \<Rightarrow> sha256_ctx \<Rightarrow> bool" where
  "absorbed msg ctx \<longleftrightarrow>
     length (data_c ctx) = 64
     \<and> state ctx = foldl std_compress std_H0 (blocks64 msg)
     \<and> unat (datalen ctx) = length msg mod 64
     \<and> take (length msg mod 64) (data_c ctx) = drop (64 * (length msg div 64)) msg
     \<and> dbl (bitlen0 ctx) (bitlen1 ctx) = 512 * (length msg div 64) mod 2 ^ 64"

lemma length_foldl_compress [simp]: "length H = 8 \<Longrightarrow> length (foldl std_compress H bs) = 8"
  by (induction bs arbitrary: H) auto

lemma length_std_H0 [simp]: "length std_H0 = 8"
  by (simp add: std_H0_def)

lemma blocks64_append:
  assumes "length xs mod 64 = 0"
  shows "blocks64 (xs @ ys) = blocks64 xs @ blocks64 ys"
proof -
  let ?q = "length xs div 64"
  have q: "64 * ?q = length xs" using assms by auto
  then have d: "length (xs @ ys) div 64 = ?q + length ys div 64" by simp
  have "segment (xs @ ys) (64 * i) 64 = segment xs (64 * i) 64" if "i < ?q" for i
  proof -
    have "64 * i + 64 \<le> length xs" using that q by linarith
    then show ?thesis by (simp add: segment_def)
  qed
  moreover have "segment (xs @ ys) (64 * (?q + i)) 64 = segment ys (64 * i) 64" for i
    by (simp add: segment_def distrib_left q)
  moreover have "[0..<?q + n] = [0..<?q] @ map ((+) ?q) [0..<n]" for n
    by (induction n) auto
  ultimately show ?thesis
    unfolding blocks64_def d by simp
qed

lemma blocks64_short: "length xs < 64 \<Longrightarrow> blocks64 xs = []"
  by (simp add: blocks64_def)

lemma blocks64_one: "length xs = 64 \<Longrightarrow> blocks64 xs = [xs]"
  by (simp add: blocks64_def segment_def)

lemma blocks64_tail: "length ys < 64 \<Longrightarrow> length xs mod 64 = 0 \<Longrightarrow> blocks64 (xs @ ys) = blocks64 xs"
  by (simp add: blocks64_append blocks64_short)

lemma absorbed_init: "length (data_c ctx) = 64 \<Longrightarrow> absorbed [] (sha256_init ctx)"
  by (simp add: absorbed_def sha256_init_def blocks64_short std_H0_def dbl_def)

lemma absorbed_split:
  assumes "absorbed msg ctx"
  obtains xs ys where "msg = xs @ ys" "length xs mod 64 = 0" "length ys = unat (datalen ctx)" "length ys < 64"
    "take (length ys) (data_c ctx) = ys" "length xs = 64 * (length msg div 64)"
proof -
  let ?n = "64 * (length msg div 64)"
  have "length (drop ?n msg) = length msg mod 64" "length (take ?n msg) = ?n"
    by (simp_all add: minus_mult_div_eq_mod min_absorb2)
  with assms show ?thesis
    by (intro that [of "take ?n msg" "drop ?n msg"]) (simp_all add: absorbed_def)
qed

lemma take_update_append: "n < length d \<Longrightarrow> take (Suc n) (d[n := b]) = take n d @ [b]"
  by (simp add: take_Suc_conv_app_nth)

text \<open>What \<open>absorbed\<close> says over such a split.\<close>

lemma absorbed_facts:
  assumes "absorbed (xs @ ys) ctx" "length xs mod 64 = 0" "length ys < 64"
  shows "length (data_c ctx) = 64" "state ctx = foldl std_compress std_H0 (blocks64 xs)"
    "dbl (bitlen0 ctx) (bitlen1 ctx) = 512 * (length (xs @ ys) div 64) mod 2 ^ 64"
  using assms by (simp_all add: absorbed_def blocks64_tail)

lemma absorbed_byte_full:
  assumes ab: "absorbed (xs @ ys) ctx" and xs: "length xs mod 64 = 0" and ys: "length ys = unat (datalen ctx)" "length ys = 63"
    and tk: "(data_c ctx)[63 := b] = ys @ [b]"
  shows "\<exists>ctx'. sha256_update_byte ctx b = Inr ctx' \<and> absorbed ((xs @ ys) @ [b]) ctx'"
proof -
  have len: "length (data_c ctx) = 64" and st: "state ctx = foldl std_compress std_H0 (blocks64 xs)"
    and bl: "dbl (bitlen0 ctx) (bitlen1 ctx) = 512 * (length (xs @ ys) div 64) mod 2 ^ 64"
    using absorbed_facts [OF ab xs] ys(2) by simp_all
  have full: "datalen ctx + 1 = 64" using ys by (simp add: word_unat_eq_iff unat_word_ariths)
  let ?ctx1 = "ctx\<lparr>data_c := (ys @ [b]), datalen := datalen ctx + 1\<rparr>"
  have tr: "sha256_transform ?ctx1 (ys @ [b]) = Inr (?ctx1\<lparr>state := std_compress (state ctx) (ys @ [b])\<rparr>)"
    using ys(2) st by (subst sha256_transform_eq) simp_all
  have u512: "unat (512 :: uint) = 512" by simp
  obtain b0 b1 where add: "DBL_INT_ADD (bitlen0 ctx) (bitlen1 ctx) 512 = (b0, b1)" by fastforce
  have "dbl b0 b1 = 512 * (Suc (length (xs @ ys) div 64)) mod 2 ^ 64"
    using DBL_INT_ADD_dbl [OF add] unfolding bl u512 by (metis mod_add_left_eq add.commute mult_Suc_right)
  moreover have "length ((xs @ ys) @ [b]) div 64 = Suc (length (xs @ ys) div 64)" "length ((xs @ ys) @ [b]) mod 64 = 0"
    using xs ys(2) by (simp_all add: mod_add_eq [symmetric] div_add1_eq [of "length xs"])
  moreover have "blocks64 ((xs @ ys) @ [b]) = blocks64 xs @ [ys @ [b]]"
    using xs ys(2) by (simp add: blocks64_append blocks64_one)
  ultimately have "absorbed ((xs @ ys) @ [b])
      (?ctx1\<lparr>state := std_compress (state ctx) (ys @ [b]), bitlen0 := b0, bitlen1 := b1, datalen := 0\<rparr>)"
    using ys(2) by (simp add: absorbed_def st)
  then show ?thesis
    using tr full ys len by (simp add: sha256_update_byte_def Let_def add tk)
qed

lemma absorbed_byte:
  assumes "absorbed msg ctx"
  shows "\<exists>ctx'. sha256_update_byte ctx b = Inr ctx' \<and> absorbed (msg @ [b]) ctx'"
proof -
  obtain xs ys where xy: "msg = xs @ ys" "length xs mod 64 = 0" "length ys = unat (datalen ctx)" "length ys < 64"
    "take (length ys) (data_c ctx) = ys" "length xs = 64 * (length msg div 64)"
    using assms by (rule absorbed_split)
  note facts = absorbed_facts [OF assms [unfolded xy(1)] xy(2,4)]
  let ?d = "(data_c ctx)[length ys := b]"
  have tk: "take (Suc (length ys)) ?d = ys @ [b]"
    using xy(4,5) facts(1) by (simp add: take_update_append)
  show ?thesis
  proof (cases "Suc (length ys) = 64")
    case True
    with tk facts(1) have "(data_c ctx)[63 := b] = ys @ [b]" by simp
    with absorbed_byte_full [OF assms [unfolded xy(1)] xy(2,3)] True xy(1) show ?thesis by simp
  next
    case False
    have dl: "unat (datalen ctx + 1) = Suc (length ys)" using xy(3,4) by (simp add: unat_word_ariths)
    then have "datalen ctx + 1 \<noteq> 64" using False by (simp add: word_unat_eq_iff)
    moreover have "length (msg @ [b]) div 64 = length msg div 64" "length (msg @ [b]) mod 64 = Suc (length ys)"
      using xy(2,4) False by (simp_all add: xy(1) mod_Suc div_Suc mod_add_eq [symmetric])
    moreover have "blocks64 (msg @ [b]) = blocks64 xs"
      using xy(1,2,4) False by (simp add: blocks64_tail)
    moreover have "drop (64 * (length msg div 64)) (msg @ [b]) = ys @ [b]"
      unfolding xy(6) [symmetric] by (simp add: xy(1))
    moreover have "store (data_c ctx) (unat (datalen ctx)) b = Inr ?d"
      using xy(3,4) facts(1) by simp
    ultimately show ?thesis
      using facts dl tk by (simp add: sha256_update_byte_def Let_def absorbed_def xy(1))
  qed
qed

lemma absorbed_loop:
  "absorbed msg ctx \<Longrightarrow> off + n \<le> length data
   \<Longrightarrow> \<exists>ctx'. sha256_update_loop n off ctx data = Inr ctx' \<and> absorbed (msg @ segment data off n) ctx'"
proof (induction n arbitrary: off msg ctx)
  case 0
  then show ?case by (simp add: segment_def)
next
  case (Suc n)
  obtain ctx1 where "sha256_update_byte ctx (data ! off) = Inr ctx1" "absorbed (msg @ [data ! off]) ctx1"
    using absorbed_byte [OF Suc.prems(1)] by blast
  moreover have "segment data off (Suc n) = data ! off # segment data (off + 1) n"
    using Suc.prems(2) by (simp add: segment_def Cons_nth_drop_Suc [symmetric])
  ultimately show ?case
    using Suc.IH [of "msg @ [data ! off]" ctx1 "off + 1"] Suc.prems(2) by simp
qed

lemma absorbed_update:
  "absorbed msg ctx \<Longrightarrow> off + len \<le> length data
   \<Longrightarrow> \<exists>ctx'. sha256_update ctx data off len = Inr ctx' \<and> absorbed (msg @ segment data off len) ctx'"
  unfolding sha256_update_def by (rule absorbed_loop)

subsection \<open>Finalisation\<close>

lemma zero_fill_eq: "i + n \<le> length d \<Longrightarrow> zero_fill n i d = Inr (patch d i (replicate n 0))"
proof (induction n arbitrary: i d)
  case (Suc n)
  then show ?case by (simp add: patch_nth_split)
qed simp

lemma final_length_eq:
  assumes "length (data_c ctx) = 64"
    and "DBL_INT_ADD (bitlen0 ctx) (bitlen1 ctx) (datalen ctx * 8) = (b0, b1)"
  shows "sha256_final_length ctx
       = Inr (ctx\<lparr>data_c := take 56 (data_c ctx) @ enc32 b1 @ enc32 b0, bitlen0 := b0, bitlen1 := b1\<rparr>)"
proof -
  obtain p q where d: "data_c ctx = p @ q" "length p = 56" "length q = 8"
    using assms(1) by (intro that [of "take 56 (data_c ctx)" "drop 56 (data_c ctx)"]) simp_all
  then obtain q0 q1 q2 q3 q4 q5 q6 q7 where q: "q = [q0, q1, q2, q3, q4, q5, q6, q7]"
    by (auto simp: numeral_eq_Suc length_Suc_conv)
  show ?thesis
    using d assms by (simp add: sha256_final_length_def q enc32_def list_update_append)
qed

lemma dbl_words:
  assumes "dbl lo hi = N mod 2 ^ 64"
  shows "lo = word_of_nat N" "hi = word_of_nat (N div 2 ^ 32)"
proof -
  have pow: "(2 :: nat) ^ 64 = 2 ^ 32 * 2 ^ 32" by simp
  have lo: "unat lo = N mod 2 ^ 32"
    using arg_cong [OF assms, of "\<lambda>x. x mod 2 ^ 32"] unat_uint_less [of lo]
    unfolding dbl_def by (simp add: mod_mod_cancel)
  have "unat hi = (N mod 2 ^ 64) div 2 ^ 32"
    using arg_cong [OF assms, of "\<lambda>x. x div 2 ^ 32"] unat_uint_less [of lo]
    unfolding dbl_def by simp
  then have hi: "unat hi = (N div 2 ^ 32) mod 2 ^ 32"
    unfolding pow mod_mult2_eq by simp
  show "lo = word_of_nat N"
    by (simp add: word_unat_eq_iff lo unat_of_nat)
  show "hi = word_of_nat (N div 2 ^ 32)"
    by (simp add: word_unat_eq_iff hi unat_of_nat)
qed

lemma patch_replicate_take:
  "length ys < lim \<Longrightarrow> lim \<le> length d \<Longrightarrow> take (length ys) d = ys
   \<Longrightarrow> patch (d[length ys := v]) (Suc (length ys)) (replicate (lim - Suc (length ys)) 0)
     = ys @ v # replicate (lim - Suc (length ys)) 0 @ drop lim d"
  by (simp add: patch_def take_update_append)

text \<open>The tail of the padded message: what follows the full blocks of the message itself.\<close>

lemma std_pad_short:
  assumes "length xs mod 64 = 0" "length ys < 56"
  shows "blocks64 (std_pad (xs @ ys)) = blocks64 xs
     @ [ys @ 0x80 # replicate (55 - length ys) 0 @ enc32 (word_of_nat (8 * length (xs @ ys) div 2 ^ 32))
        @ enc32 (word_of_nat (8 * length (xs @ ys)))]"
proof -
  define L where "L = enc32 (word_of_nat (8 * length (xs @ ys) div 2 ^ 32)) @ enc32 (word_of_nat (8 * length (xs @ ys)))"
  have n: "length (xs @ ys) mod 64 = length ys" using assms by (simp add: mod_add_eq [symmetric])
  have z: "(119 - length (xs @ ys) mod 64) mod 64 = 55 - length ys" unfolding n using assms(2) by (simp add: mod_if)
  have "std_pad (xs @ ys) = xs @ ys @ 0x80 # replicate (55 - length ys) 0 @ L"
    unfolding std_pad_def z L_def by simp
  moreover have "length (ys @ 0x80 # replicate (55 - length ys) 0 @ L) = 64"
    using assms(2) by (simp add: L_def)
  ultimately show ?thesis
    using assms(1) unfolding L_def [symmetric] by (simp only: blocks64_append blocks64_one)
qed

lemma std_pad_long:
  assumes "length xs mod 64 = 0" "56 \<le> length ys" "length ys < 64"
  shows "blocks64 (std_pad (xs @ ys)) = blocks64 xs
     @ [ys @ 0x80 # replicate (63 - length ys) 0,
        replicate 56 0 @ enc32 (word_of_nat (8 * length (xs @ ys) div 2 ^ 32))
        @ enc32 (word_of_nat (8 * length (xs @ ys)))]"
proof -
  have n: "length (xs @ ys) mod 64 = length ys" using assms by (simp add: mod_add_eq [symmetric])
  have z: "replicate ((119 - length (xs @ ys) mod 64) mod 64) (0 :: uchar) = replicate (63 - length ys) 0 @ replicate 56 0"
    unfolding n using assms(2,3) by (simp add: replicate_add [symmetric])
  define L where "L = enc32 (word_of_nat (8 * length (xs @ ys) div 2 ^ 32)) @ enc32 (word_of_nat (8 * length (xs @ ys)))"
  let ?h = "ys @ 0x80 # replicate (63 - length ys) 0" and ?t = "replicate 56 0 @ L"
  have "std_pad (xs @ ys) = xs @ ?h @ ?t"
    unfolding std_pad_def z L_def by simp
  moreover have "length ?h = 64" "length ?t = 64" "length ?h mod 64 = 0"
    using assms(2,3) by (simp_all add: L_def)
  ultimately show ?thesis
    using assms(1) unfolding L_def [symmetric] by (simp only: blocks64_append blocks64_one) simp
qed

text \<open>Padding, length and the last transformation, when the length still fits into the block and when it does not.\<close>

definition final_run :: "sha256_ctx \<Rightarrow> sha256_ctx res" where
  "final_run ctx = rbind (sha256_final_pad ctx) (\<lambda>ctx. rbind (sha256_final_length ctx) (\<lambda>ctx. sha256_transform ctx (data_c ctx)))"

lemma final_run_short:
  assumes xs: "length xs mod 64 = 0" and ys: "length ys = unat (datalen ctx)" "length ys < 56" "take (length ys) (data_c ctx) = ys"
    and len: "length (data_c ctx) = 64" and st: "state ctx = foldl std_compress std_H0 (blocks64 xs)"
    and add: "DBL_INT_ADD (bitlen0 ctx) (bitlen1 ctx) (datalen ctx * 8) = (b0, b1)"
    and b: "b0 = word_of_nat (8 * length (xs @ ys))" "b1 = word_of_nat (8 * length (xs @ ys) div 2 ^ 32)"
  shows "\<exists>ctx'. final_run ctx = Inr ctx' \<and> state ctx' = std_sha256_words (xs @ ys) \<and> length (data_c ctx') = 64"
proof -
  have lt: "datalen ctx < 56" using ys(1,2) by (simp add: word_less_nat_alt)
  let ?d = "ys @ 0x80 # replicate (55 - length ys) 0 @ drop 56 (data_c ctx)"
  let ?blk = "ys @ 0x80 # replicate (55 - length ys) 0 @ enc32 b1 @ enc32 b0"
  have pad: "sha256_final_pad ctx = Inr (ctx\<lparr>data_c := ?d\<rparr>)"
    using lt len ys patch_replicate_take [of ys 56 "data_c ctx" "0x80"]
    by (simp add: sha256_final_pad_def Let_def zero_fill_eq)
  have lng: "sha256_final_length (ctx\<lparr>data_c := ?d\<rparr>) = Inr (ctx\<lparr>data_c := ?blk, bitlen0 := b0, bitlen1 := b1\<rparr>)"
    using ys(2) len add by (subst final_length_eq) (simp_all add: take_Cons')
  have "sha256_transform (ctx\<lparr>data_c := ?blk, bitlen0 := b0, bitlen1 := b1\<rparr>) ?blk
      = Inr (ctx\<lparr>data_c := ?blk, bitlen0 := b0, bitlen1 := b1, state := std_compress (state ctx) ?blk\<rparr>)"
    using ys(2) st by (subst sha256_transform_eq) simp_all
  then have run: "final_run ctx = Inr (ctx\<lparr>data_c := ?blk, bitlen0 := b0, bitlen1 := b1, state := std_compress (state ctx) ?blk\<rparr>)"
    unfolding final_run_def pad rbind_Inr lng by simp
  have "std_sha256_words (xs @ ys) = std_compress (state ctx) ?blk"
    unfolding std_sha256_words_def std_pad_short [OF xs ys(2)] by (simp add: st b)
  with run ys(2) show ?thesis by simp
qed

lemma final_run_long:
  assumes xs: "length xs mod 64 = 0" and ys: "length ys = unat (datalen ctx)" "56 \<le> length ys" "length ys < 64" "take (length ys) (data_c ctx) = ys"
    and len: "length (data_c ctx) = 64" and st: "state ctx = foldl std_compress std_H0 (blocks64 xs)"
    and add: "DBL_INT_ADD (bitlen0 ctx) (bitlen1 ctx) (datalen ctx * 8) = (b0, b1)"
    and b: "b0 = word_of_nat (8 * length (xs @ ys))" "b1 = word_of_nat (8 * length (xs @ ys) div 2 ^ 32)"
  shows "\<exists>ctx'. final_run ctx = Inr ctx' \<and> state ctx' = std_sha256_words (xs @ ys) \<and> length (data_c ctx') = 64"
proof -
  have nlt: "\<not> datalen ctx < 56" using ys(1,2) by (simp add: word_less_nat_alt)
  let ?d1 = "ys @ 0x80 # replicate (63 - length ys) 0"
  let ?blk = "replicate 56 0 @ enc32 b1 @ enc32 b0"
  let ?s1 = "std_compress (state ctx) ?d1"
  have fill: "patch ((data_c ctx)[length ys := 0x80]) (Suc (length ys)) (replicate (63 - length ys) 0) = ?d1"
    using len ys(3,4) patch_replicate_take [of ys 64 "data_c ctx" "0x80"] by simp
  have tr: "sha256_transform (ctx\<lparr>data_c := ?d1\<rparr>) ?d1 = Inr (ctx\<lparr>data_c := ?d1, state := ?s1\<rparr>)"
    using ys(3) st by (subst sha256_transform_eq) simp_all
  have pad: "sha256_final_pad ctx = Inr (ctx\<lparr>data_c := replicate 56 0 @ drop 56 ?d1, state := ?s1\<rparr>)"
    using nlt len ys(2,3) fill tr
    by (simp add: sha256_final_pad_def Let_def zero_fill_eq memset_def mem_simps ys(1) [symmetric])
      (simp add: patch_def)
  have lng: "sha256_final_length (ctx\<lparr>data_c := replicate 56 0 @ drop 56 ?d1, state := ?s1\<rparr>)
      = Inr (ctx\<lparr>data_c := ?blk, bitlen0 := b0, bitlen1 := b1, state := ?s1\<rparr>)"
    using ys(2,3) add by (subst final_length_eq; cases ctx) simp_all
  have "sha256_transform (ctx\<lparr>data_c := ?blk, bitlen0 := b0, bitlen1 := b1, state := ?s1\<rparr>) ?blk
      = Inr (ctx\<lparr>data_c := ?blk, bitlen0 := b0, bitlen1 := b1, state := std_compress ?s1 ?blk\<rparr>)"
    using st by (subst sha256_transform_eq) simp_all
  then have run: "final_run ctx = Inr (ctx\<lparr>data_c := ?blk, bitlen0 := b0, bitlen1 := b1, state := std_compress ?s1 ?blk\<rparr>)"
    unfolding final_run_def pad rbind_Inr lng by simp
  have "std_sha256_words (xs @ ys) = std_compress ?s1 ?blk"
    unfolding std_sha256_words_def std_pad_long [OF xs ys(2,3)] by (simp add: st b)
  with run show ?thesis by simp
qed

lemma final_pad_state:
  assumes "absorbed msg ctx"
  shows "\<exists>ctx'. final_run ctx = Inr ctx' \<and> state ctx' = std_sha256_words msg \<and> length (data_c ctx') = 64"
proof -
  obtain xs ys where xy: "msg = xs @ ys" "length xs mod 64 = 0" "length ys = unat (datalen ctx)" "length ys < 64"
    "take (length ys) (data_c ctx) = ys" "length xs = 64 * (length msg div 64)"
    using assms by (rule absorbed_split)
  note facts = absorbed_facts [OF assms [unfolded xy(1)] xy(2,4)]
  obtain b0 b1 where add: "DBL_INT_ADD (bitlen0 ctx) (bitlen1 ctx) (datalen ctx * 8) = (b0, b1)" by fastforce
  have "unat (datalen ctx * 8) = 8 * length ys" using xy(3,4) by (simp add: unat_word_ariths)
  then have "dbl b0 b1 = (512 * (length (xs @ ys) div 64) + 8 * length ys) mod 2 ^ 64"
    using DBL_INT_ADD_dbl [OF add] unfolding facts(3) by (metis mod_add_left_eq)
  also have "512 * (length (xs @ ys) div 64) + 8 * length ys = 8 * length (xs @ ys)"
    using xy(1,6) by simp
  finally have b: "b0 = word_of_nat (8 * length (xs @ ys))" "b1 = word_of_nat (8 * length (xs @ ys) div 2 ^ 32)"
    by (rule dbl_words)+
  show ?thesis
    using final_run_short [OF xy(2,3) _ xy(5) facts(1,2) add b] final_run_long [OF xy(2,3) _ xy(4,5) facts(1,2) add b] xy(1)
    by (cases "length ys < 56") simp_all
qed

subsection \<open>Output\<close>

text \<open>What the output loop writes.\<close>

definition low_bytes4 :: "uint list \<Rightarrow> bytes" where
  "low_bytes4 st = map (\<lambda>k. ucast (st ! (k div 4))) [0..<32]"

lemma length_low_bytes4 [simp]: "length (low_bytes4 st) = 32"
  by (simp add: low_bytes4_def)

lemma sha256_output_words_ok:
  "j + n \<le> length st \<Longrightarrow> i + 4 * (j + n) \<le> length hash + 3
   \<Longrightarrow> \<exists>hash'. sha256_output_words n j i st hash = Inr hash' \<and> length hash' = length hash
     \<and> (\<forall>k < length hash. hash' ! k
         = (if \<exists>j'. j \<le> j' \<and> j' < j + n \<and> k = i + 4 * j' then ucast (st ! ((k - i) div 4)) else hash ! k))"
proof (induction n arbitrary: j hash)
  case (Suc n)
  let ?h = "hash[i + 4 * j := ucast (st ! j)]"
  obtain hash' where h: "sha256_output_words n (j + 1) i st ?h = Inr hash'" "length hash' = length hash"
    "\<forall>k < length hash. hash' ! k
       = (if \<exists>j'. j + 1 \<le> j' \<and> j' < j + 1 + n \<and> k = i + 4 * j' then ucast (st ! ((k - i) div 4)) else ?h ! k)"
    using Suc.IH [of "j + 1" ?h] Suc.prems by auto
  have "hash' ! k = (if \<exists>j'. j \<le> j' \<and> j' < j + Suc n \<and> k = i + 4 * j' then ucast (st ! ((k - i) div 4)) else hash ! k)"
    if "k < length hash" for k
  proof (cases "k = i + 4 * j")
    case True
    then have "\<not> (\<exists>j'. j + 1 \<le> j' \<and> j' < j + 1 + n \<and> k = i + 4 * j')" by auto
    moreover have "\<exists>j'. j \<le> j' \<and> j' < j + Suc n \<and> k = i + 4 * j'" using True by (intro exI [of _ j]) simp
    ultimately show ?thesis using h(3) that True by simp
  next
    case False
    then have "(\<exists>j'. j \<le> j' \<and> j' < j + Suc n \<and> k = i + 4 * j') = (\<exists>j'. j + 1 \<le> j' \<and> j' < j + 1 + n \<and> k = i + 4 * j')"
      by (metis Suc_eq_plus1 Suc_leI add_Suc_shift le_SucI le_eq_less_or_eq not_less_eq_eq)
    note iff = this
    have "hash' ! k = (if \<exists>j'. j + 1 \<le> j' \<and> j' < j + 1 + n \<and> k = i + 4 * j' then ucast (st ! ((k - i) div 4)) else ?h ! k)"
      using h(3) that by blast
    moreover have "?h ! k = hash ! k" using False by simp
    ultimately show ?thesis unfolding iff by (simp only:)
  qed
  then show ?case
    using h(1,2) Suc.prems by simp
qed auto

lemma sha256_output_words_full:
  assumes "length st = 8" "32 \<le> length hash" "i < 4"
  shows "\<exists>hash'. sha256_output_words 8 0 i st hash = Inr hash' \<and> length hash' = length hash
     \<and> (\<forall>k < length hash. hash' ! k = (if k < 32 \<and> k mod 4 = i then ucast (st ! (k div 4)) else hash ! k))"
proof -
  have iff: "(\<exists>j'. 0 \<le> j' \<and> j' < 0 + 8 \<and> k = i + 4 * j') \<longleftrightarrow> k < 32 \<and> k mod 4 = i" for k
  proof
    assume "k < 32 \<and> k mod 4 = i"
    then show "\<exists>j'. 0 \<le> j' \<and> j' < 0 + 8 \<and> k = i + 4 * j'" by (intro exI [of _ "k div 4"]) auto
  qed (use assms(3) in auto)
  have dv: "(k - i) div 4 = k div 4" if "k mod 4 = i" for k
    using that by (metis minus_mod_eq_mult_div nonzero_mult_div_cancel_left zero_neq_numeral)
  have b: "i + 4 * (0 + 8) \<le> length hash + 3" "0 + 8 \<le> length st" using assms by simp_all
  obtain hash' where h: "sha256_output_words 8 0 i st hash = Inr hash'" "length hash' = length hash"
    "\<forall>k < length hash. hash' ! k
       = (if k < 32 \<and> k mod 4 = i then ucast (st ! ((k - i) div 4)) else hash ! k)"
    using sha256_output_words_ok [OF b(2,1)] unfolding iff by blast
  have "hash' ! k = (if k < 32 \<and> k mod 4 = i then ucast (st ! (k div 4)) else hash ! k)" if "k < length hash" for k
    using h(3) [rule_format, OF that] dv [of k] by (simp split: if_split)
  with h(1,2) show ?thesis by blast
qed

lemma sha256_output_ok:
  assumes "length st = 8"
  shows "i + n = 4 \<Longrightarrow> 32 \<le> length hash
   \<Longrightarrow> \<exists>hash'. sha256_output n i st hash = Inr hash' \<and> length hash' = length hash
     \<and> (\<forall>k < length hash. hash' ! k = (if k < 32 \<and> i \<le> k mod 4 then ucast (st ! (k div 4)) else hash ! k))"
proof (induction n arbitrary: i hash)
  case 0
  then have "\<not> i \<le> k mod 4" for k by (simp add: not_le)
  then show ?case by simp
next
  case (Suc n)
  obtain h1 where h1: "sha256_output_words 8 0 i st hash = Inr h1" "length h1 = length hash"
    "\<forall>k < length hash. h1 ! k = (if k < 32 \<and> k mod 4 = i then ucast (st ! (k div 4)) else hash ! k)"
    using sha256_output_words_full [OF assms Suc.prems(2), of i] Suc.prems(1) by auto
  obtain h2 where "sha256_output n (i + 1) st h1 = Inr h2" "length h2 = length hash"
    "\<forall>k < length hash. h2 ! k = (if k < 32 \<and> i + 1 \<le> k mod 4 then ucast (st ! (k div 4)) else h1 ! k)"
    using Suc.IH [of "i + 1" h1] Suc.prems h1(2) by auto
  with h1 show ?case by auto
qed

lemma sha256_output_eq:
  assumes "length st = 8" "32 \<le> length hash"
  shows "sha256_output 4 0 st hash = Inr (patch hash 0 (low_bytes4 st))"
proof -
  obtain h where h: "sha256_output 4 0 st hash = Inr h" "length h = length hash"
    "\<forall>k < length hash. h ! k = (if k < 32 \<and> 0 \<le> k mod 4 then ucast (st ! (k div 4)) else hash ! k)"
    using sha256_output_ok [OF assms(1), of 0 4 hash] assms(2) by auto
  then have "h = patch hash 0 (low_bytes4 st)"
    using assms(2) by (intro nth_equalityI) (auto simp: mem_simps nth_patch low_bytes4_def)
  with h show ?thesis by simp
qed

lemma length_std_sha256_words [simp]: "length (std_sha256_words msg) = 8"
  by (simp add: std_sha256_words_def)

lemma sha256_final_ok:
  assumes "absorbed msg ctx" "32 \<le> length hash"
  shows "\<exists>ctx'. sha256_final ctx hash = Inr (ctx', patch hash 0 (low_bytes4 (std_sha256_words msg)))
       \<and> state ctx' = std_sha256_words msg \<and> length (data_c ctx') = 64"
proof -
  obtain ctx' where "rbind (sha256_final_pad ctx) (\<lambda>ctx. rbind (sha256_final_length ctx) (\<lambda>ctx. sha256_transform ctx (data_c ctx)))
       = Inr ctx'" "state ctx' = std_sha256_words msg" "length (data_c ctx') = 64"
    using final_pad_state [OF assms(1)] unfolding final_run_def by blast
  then show ?thesis
    using assms(2) by (auto simp: sha256_final_def rbind_eq_Inr sha256_output_eq)
qed

subsection \<open>Whole runs\<close>

definition piece_ok :: "bytes \<times> nat \<times> nat \<Rightarrow> bool" where
  "piece_ok p = (case p of (data, off, len) \<Rightarrow> off + len \<le> length data)"

definition message :: "(bytes \<times> nat \<times> nat) list \<Rightarrow> bytes" where
  "message pieces = concat (map (\<lambda>(data, off, len). segment data off len) pieces)"

lemma absorbed_update_all:
  "absorbed msg ctx \<Longrightarrow> list_all piece_ok ps
   \<Longrightarrow> \<exists>ctx'. sha256_update_all ctx ps = Inr ctx' \<and> absorbed (msg @ message ps) ctx'"
proof (induction ps arbitrary: msg ctx)
  case (Cons p ps)
  obtain data off len where p: "p = (data, off, len)" by (cases p)
  obtain ctx1 where "sha256_update ctx data off len = Inr ctx1" "absorbed (msg @ segment data off len) ctx1"
    using absorbed_update [OF Cons.prems(1), of off len data] Cons.prems(2) by (auto simp: p piece_ok_def)
  with Cons.IH [OF this(2)] Cons.prems(2) show ?case by (auto simp: p message_def)
qed (simp add: message_def)

lemma sha256_run_ok:
  assumes "length (data_c ctx) = 64" "list_all piece_ok pieces" "32 \<le> length hash"
  shows "\<exists>ctx'. sha256_run ctx pieces hash = Inr (ctx', patch hash 0 (low_bytes4 (std_sha256_words (message pieces))))
       \<and> state ctx' = std_sha256_words (message pieces) \<and> length (data_c ctx') = 64"
proof -
  obtain ctx1 where 1: "sha256_update_all (sha256_init ctx) pieces = Inr ctx1" "absorbed (message pieces) ctx1"
    using absorbed_update_all [OF absorbed_init [OF assms(1)] assms(2)] by auto
  obtain ctx' where "sha256_final ctx1 hash = Inr (ctx', patch hash 0 (low_bytes4 (std_sha256_words (message pieces))))"
      "state ctx' = std_sha256_words (message pieces)" "length (data_c ctx') = 64"
    using sha256_final_ok [OF 1(2) assms(3)] by blast
  with 1(1) show ?thesis by (simp add: sha256_run_def)
qed

lemma message_single [simp]: "message [(data, off, len)] = segment data off len"
  by (simp add: message_def)

definition some_ctx :: sha256_ctx where
  "some_ctx = \<lparr>data_c = replicate 64 0, datalen = 0, bitlen0 = 0, bitlen1 = 0, state = replicate 8 0\<rparr>"



text \<open>What is written is a list of eight bytes, each repeated four times.\<close>

lemma map_div4:
  "map (\<lambda>k. f (ws ! (k div 4))) [0..<4 * length ws] = concat (map (\<lambda>w. replicate 4 (f w)) ws)"
proof (induction ws rule: rev_induct)
  case (snoc w ws)
  let ?n = "length ws"
  have "[0..<4 * Suc ?n] = [0..<4 * ?n] @ [4 * ?n, 4 * ?n + 1, 4 * ?n + 2, 4 * ?n + 3]"
    by (simp add: numeral_eq_Suc)
  moreover have "map (\<lambda>k. f ((ws @ [w]) ! (k div 4))) [0..<4 * ?n] = map (\<lambda>k. f (ws ! (k div 4))) [0..<4 * ?n]"
    by (simp add: nth_append less_mult_imp_div_less mult.commute)
  moreover have "replicate 4 (f w) = [f w, f w, f w, f w]" by (simp add: numeral_eq_Suc)
  moreover have "(4 * ?n + 1) div 4 = ?n" "(4 * ?n + 2) div 4 = ?n" "(4 * ?n + 3) div 4 = ?n" by simp_all
  ultimately show ?case using snoc.IH by (simp only: length_append list.size map_append list.map nth_append_length) simp
qed simp

lemma low_bytes4_replicate:
  "length ws = 8 \<Longrightarrow> low_bytes4 ws = concat (map (replicate 4) (map ucast ws))"
  using map_div4 [of ucast ws] by (simp add: low_bytes4_def comp_def)

text \<open>The values that a run can write to a 32-byte \<^verbatim>\<open>hash\<close>.\<close>

definition digests :: "bytes set" where
  "digests = {h. \<exists>ctx pieces hash ctx'. length (data_c ctx) = 64 \<and> list_all piece_ok pieces \<and> length hash = 32
     \<and> sha256_run ctx pieces hash = Inr (ctx', h)}"

lemma digests_subset: "digests \<subseteq> (\<lambda>bs. concat (map (replicate 4) bs)) ` {bs. length bs = 8}"
proof
  fix h assume "h \<in> digests"
  then obtain ctx pieces hash ctx' where *: "length (data_c ctx) = 64" "list_all piece_ok pieces" "length hash = 32"
    "sha256_run ctx pieces hash = Inr (ctx', h)"
    by (auto simp: digests_def)
  then have "h = low_bytes4 (std_sha256_words (message pieces))"
    using sha256_run_ok [OF *(1,2), of hash] by (auto simp: patch_def)
  then show "h \<in> (\<lambda>bs. concat (map (replicate 4) bs)) ` {bs. length bs = 8}"
    by (intro image_eqI [of _ _ "map ucast (std_sha256_words (message pieces))"]) (simp_all add: low_bytes4_replicate)
qed

lemma card_bytes8: "finite {bs :: bytes. length bs = 8}" "card {bs :: bytes. length bs = 8} = 2 ^ 64"
  using finite_lists_length_eq [of "UNIV :: uchar set" 8] card_lists_length_eq [of "UNIV :: uchar set" 8]
  by (simp_all add: card_word)

text \<open>
  C30. The digests are far from 256 bits: whatever is hashed, with whatever context and previous contents of
  \<^verbatim>\<open>hash\<close>, at most \<open>2\<^sup>6\<^sup>4\<close> different values of the 32 bytes can ever be written.
\<close>

theorem sha256_digest_space: "finite digests \<and> card digests \<le> 2 ^ 64"
  using finite_subset [OF digests_subset] card_bytes8
    card_mono [OF _ digests_subset] card_image_le [OF card_bytes8(1), of "\<lambda>bs. concat (map (replicate 4) bs)"]
  by (simp add: finite_imageI)

end
