(* ===== verification/Queue.thy ===== *)
theory Queue
  imports Prelude
begin

text \<open>
  \<^verbatim>\<open>src/include/queue.h\<close>, \<^verbatim>\<open>src/src/queue.c\<close>: a queue of byte strings as a doubly linked list
  between two sentinel nodes. New elements are linked in after \<^verbatim>\<open>head\<close>, \<^verbatim>\<open>queue_dequeue\<close> takes the
  one before \<^verbatim>\<open>tail\<close>.

  The heap is explicit: a map from addresses to nodes and one from addresses to data areas, with 0 as
  \<^verbatim>\<open>NULL\<close>. What \<^verbatim>\<open>malloc\<close> returns, the address and the contents left in the memory, is an argument of
  the operation that calls it; its documented behaviour is that the address is not \<^verbatim>\<open>NULL\<close> (the code does not
  check) and not in use.

  The last part states what a first-in first-out queue promises as a locale, proves its consequence for
  sequences of operations there, and interprets it on the heap implementation.
\<close>

subsection \<open>Heap and structures\<close>

record node =
  prev_n :: nat
  next_n :: nat
  size_n :: uint
  data_n :: nat

record queue_st =
  nodes :: "nat \<rightharpoonup> node"
  blobs :: "nat \<rightharpoonup> bytes"
  head_q :: nat
  tail_q :: nat
  size_q :: uint

definition deref :: "queue_st \<Rightarrow> nat \<Rightarrow> node res" where
  "deref s p = (if p = 0 then Inl NullPointer
     else case nodes s p of None \<Rightarrow> Inl BadPointer | Some n \<Rightarrow> Inr n)"

definition set_field :: "(node \<Rightarrow> node) \<Rightarrow> nat \<Rightarrow> queue_st \<Rightarrow> queue_st res" where
  "set_field f p s = rbind (deref s p) (\<lambda>n. Inr (s\<lparr>nodes := (nodes s)(p \<mapsto> f n)\<rparr>))"

definition deref_data :: "queue_st \<Rightarrow> nat \<Rightarrow> bytes res" where
  "deref_data s p = (if p = 0 then Inl NullPointer
     else case blobs s p of None \<Rightarrow> Inl BadPointer | Some b \<Rightarrow> Inr b)"

definition free_node :: "nat \<Rightarrow> queue_st \<Rightarrow> queue_st res" where
  "free_node p s = (if p = 0 then Inr s
     else if nodes s p = None then Inl BadPointer else Inr (s\<lparr>nodes := (nodes s)(p := None)\<rparr>))"

definition free_data :: "nat \<Rightarrow> queue_st \<Rightarrow> queue_st res" where
  "free_data p s = (if p = 0 then Inr s
     else if blobs s p = None then Inl BadPointer else Inr (s\<lparr>blobs := (blobs s)(p := None)\<rparr>))"

text \<open>What one call of \<^verbatim>\<open>malloc\<close> for a node, and for a data area, may give.\<close>

definition fresh_node :: "queue_st \<Rightarrow> nat \<Rightarrow> bool" where
  "fresh_node s a \<longleftrightarrow> a \<noteq> 0 \<and> nodes s a = None"

definition fresh_data :: "queue_st \<Rightarrow> nat \<Rightarrow> bool" where
  "fresh_data s a \<longleftrightarrow> a \<noteq> 0 \<and> blobs s a = None"

subsection \<open>Operations\<close>

text \<open>
  \<^verbatim>\<open>queue_init\<close>: the two addresses, the contents of the two nodes as allocated, and the contents of
  \<^verbatim>\<open>q->size\<close> as allocated, which the function does not set.
\<close>

definition queue_init :: "(nat \<rightharpoonup> node) \<Rightarrow> (nat \<rightharpoonup> bytes) \<Rightarrow> nat \<Rightarrow> node \<Rightarrow> nat \<Rightarrow> node \<Rightarrow> uint \<Rightarrow> queue_st res" where
  "queue_init ns bs h junk_h t junk_t junk_size =
     (let q = \<lparr>nodes = ns(h \<mapsto> junk_h, t \<mapsto> junk_t), blobs = bs, head_q = h, tail_q = t, size_q = junk_size\<rparr> in
      rbind (set_field (next_n_update (\<lambda>_. tail_q q)) (head_q q) q) (\<lambda>q.
      set_field (prev_n_update (\<lambda>_. head_q q)) (tail_q q) q))"

definition queue_enqueue :: "nat \<Rightarrow> node \<Rightarrow> nat \<Rightarrow> bytes \<Rightarrow> queue_st \<Rightarrow> bytes \<Rightarrow> uint \<Rightarrow> queue_st res" where
  "queue_enqueue new junk d junk_d q data sz =
     (let q = q\<lparr>nodes := (nodes q)(new \<mapsto> junk)\<rparr> in
      rbind (deref q (head_q q)) (\<lambda>hn.
      rbind (set_field (prev_n_update (\<lambda>_. new)) (next_n hn) q) (\<lambda>q.
      rbind (deref q (head_q q)) (\<lambda>hn.
      rbind (set_field (next_n_update (\<lambda>_. next_n hn)) new q) (\<lambda>q.
      rbind (set_field (prev_n_update (\<lambda>_. head_q q)) new q) (\<lambda>q.
      rbind (set_field (next_n_update (\<lambda>_. new)) (head_q q) q) (\<lambda>q.
      let q = q\<lparr>blobs := (blobs q)(d \<mapsto> junk_d)\<rparr> in
      rbind (set_field (data_n_update (\<lambda>_. d)) new q) (\<lambda>q.
      rbind (set_field (size_n_update (\<lambda>_. sz)) new q) (\<lambda>q.
      rbind (memcpy junk_d 0 data 0 (unat sz)) (\<lambda>b.
      Inr (q\<lparr>blobs := (blobs q)(d \<mapsto> b), size_q := size_q q + 1\<rparr>)))))))))))"

definition queue_dequeue :: "queue_st \<Rightarrow> bytes \<Rightarrow> (queue_st \<times> bytes \<times> uint) res" where
  "queue_dequeue q dest =
     (if size_q q = 0 then Inl (Fatal ''Dequeue attempted on empty queue'')
      else
        rbind (deref q (tail_q q)) (\<lambda>tn.
        rbind (deref q (prev_n tn)) (\<lambda>last.
        rbind (deref_data q (data_n last)) (\<lambda>b.
        rbind (memcpy dest 0 b 0 (unat (size_n last))) (\<lambda>dest.
        let temp = prev_n tn; retval = size_n last in
        rbind (set_field (next_n_update (\<lambda>_. tail_q q)) (prev_n last) q) (\<lambda>q.
        rbind (deref q (tail_q q)) (\<lambda>tn.
        rbind (deref q (prev_n tn)) (\<lambda>last.
        rbind (set_field (prev_n_update (\<lambda>_. prev_n last)) (tail_q q) q) (\<lambda>q.
        rbind (deref q temp) (\<lambda>t.
        rbind (free_data (data_n t) q) (\<lambda>q.
        rbind (free_node temp q) (\<lambda>q.
        Inr (q\<lparr>size_q := size_q q - 1\<rparr>, dest, retval)))))))))))))"

text \<open>
  \<^verbatim>\<open>queue_fatal\<close> frees every node it meets until one has no successor. \<open>None\<close> is a loop that does
  not end.
\<close>

partial_function (option) queue_fatal_loop :: "nat \<Rightarrow> queue_st \<Rightarrow> queue_st res option" where
  "queue_fatal_loop cur q =
     (case deref q cur of
        Inl e \<Rightarrow> Some (Inl e)
      | Inr n \<Rightarrow>
          if next_n n \<noteq> 0 then
            (case rbind (free_data (data_n n) q) (free_node cur) of
               Inl e \<Rightarrow> Some (Inl e)
             | Inr q \<Rightarrow> queue_fatal_loop (next_n n) q)
          else Some (Inr q))"

definition queue_fatal :: "queue_st \<Rightarrow> queue_st res option" where
  "queue_fatal q = queue_fatal_loop (head_q q) q"

subsection \<open>Links\<close>

definition nxt :: "queue_st \<Rightarrow> nat \<Rightarrow> nat option" where
  "nxt s p = map_option next_n (nodes s p)"

definition prv :: "queue_st \<Rightarrow> nat \<Rightarrow> nat option" where
  "prv s p = map_option prev_n (nodes s p)"

fun links :: "queue_st \<Rightarrow> nat list \<Rightarrow> bool" where
  "links s (a # b # ps) = (nxt s a = Some b \<and> prv s b = Some a \<and> links s (b # ps))"
| "links s ps = True"

lemma links_cong:
  "(\<And>a. a \<in> set (butlast ps) \<Longrightarrow> nxt s' a = nxt s a) \<Longrightarrow> (\<And>a. a \<in> set (tl ps) \<Longrightarrow> prv s' a = prv s a)
   \<Longrightarrow> links s' ps = links s ps"
  by (induction s ps rule: links.induct) (auto split: if_splits)

lemma links_append: "links s (xs @ y # ys) \<longleftrightarrow> links s (xs @ [y]) \<and> links s (y # ys)"
proof (induction xs)
  case (Cons a xs)
  then show ?case by (cases xs) auto
qed simp

lemma links_nodes:
  "links s ps \<Longrightarrow> 2 \<le> length ps \<Longrightarrow> set ps \<subseteq> dom (nodes s)"
proof (induction s ps rule: links.induct)
  case (1 s a b ps)
  then show ?case by (cases ps) (auto simp: nxt_def prv_def)
qed auto

subsection \<open>What the heap represents\<close>

text \<open>The node at an address holds a byte string.\<close>

definition holds :: "queue_st \<Rightarrow> nat \<Rightarrow> bytes \<Rightarrow> bool" where
  "holds s p x \<longleftrightarrow> (\<exists>n. nodes s p = Some n \<and> data_n n \<noteq> 0 \<and> blobs s (data_n n) = Some x
     \<and> unat (size_n n) = length x)"

definition dat :: "queue_st \<Rightarrow> nat \<Rightarrow> nat" where
  "dat s p = (case nodes s p of None \<Rightarrow> 0 | Some n \<Rightarrow> data_n n)"

text \<open>
  The addresses \<open>ps\<close> between the sentinels, newest first, hold \<open>xs\<close>, oldest first. The counter is left out
  here: \<^verbatim>\<open>queue_init\<close> does not set it.
\<close>

definition rep_at :: "queue_st \<Rightarrow> nat list \<Rightarrow> bytes list \<Rightarrow> bool" where
  "rep_at s ps xs \<longleftrightarrow>
     distinct (head_q s # ps @ [tail_q s]) \<and> 0 \<notin> set (head_q s # ps @ [tail_q s])
     \<and> links s (head_q s # ps @ [tail_q s])
     \<and> list_all2 (holds s) ps (rev xs) \<and> distinct (map (dat s) ps)"

definition rep :: "queue_st \<Rightarrow> bytes list \<Rightarrow> bool" where
  "rep s xs \<longleftrightarrow> (\<exists>ps. rep_at s ps xs) \<and> size_q s = word_of_nat (length xs)"

lemma holds_cong:
  "nodes s' p = nodes s p \<Longrightarrow> blobs s' (dat s p) = blobs s (dat s p) \<Longrightarrow> holds s' p x = holds s p x"
  by (auto simp: holds_def dat_def)

lemma holds_dat: "holds s p x \<Longrightarrow> blobs s (dat s p) = Some x"
  by (auto simp: holds_def dat_def)

lemma list_all2_holds_dat: "list_all2 (holds s) ps xs \<Longrightarrow> p \<in> set ps \<Longrightarrow> \<exists>x. holds s p x"
  by (auto simp: list_all2_conv_all_nth in_set_conv_nth)

lemma deref_Some: "p \<noteq> 0 \<Longrightarrow> nodes s p = Some n \<Longrightarrow> deref s p = Inr n"
  by (simp add: deref_def)

lemma set_field_Some:
  "p \<noteq> 0 \<Longrightarrow> nodes s p = Some n \<Longrightarrow> set_field f p s = Inr (s\<lparr>nodes := (nodes s)(p \<mapsto> f n)\<rparr>)"
  by (simp add: set_field_def deref_def)

text \<open>Linking a fresh node in after the head.\<close>

lemma enqueue_run:
  assumes q: "head_q q \<noteq> 0" "nodes q (head_q q) = Some hn" "next_n hn = b" "b \<noteq> 0" "nodes q b = Some nb" "b \<noteq> head_q q"
    and a: "fresh_node q a" and d: "fresh_data q d" "length junk_d = unat sz"
    and sz: "unat sz \<le> length data"
  shows "queue_enqueue a junk d junk_d q data sz =
    Inr (q\<lparr>nodes := (nodes q)(b \<mapsto> nb\<lparr>prev_n := a\<rparr>,
             a \<mapsto> \<lparr>prev_n = head_q q, next_n = b, size_n = sz, data_n = d\<rparr>,
             head_q q \<mapsto> hn\<lparr>next_n := a\<rparr>),
           blobs := (blobs q)(d \<mapsto> take (unat sz) data), size_q := size_q q + 1\<rparr>)"
proof -
  have ne: "a \<noteq> 0" "a \<noteq> head_q q" "a \<noteq> b" "nodes q a = None" using a q by (auto simp: fresh_node_def)
  have cp: "memcpy junk_d 0 data 0 (unat sz) = Inr (take (unat sz) data)"
    using d(2) sz by (simp add: memcpy_def mem_read_def mem_write_def segment_def patch_def)
  show ?thesis
    using q ne unfolding queue_enqueue_def Let_def
    by (cases junk) (simp add: deref_def set_field_def cp fun_upd_twist fun_upd_idem_iff)
qed

lemma rep_at_heads:
  assumes "rep_at q ps xs"
  obtains hn b nb where "nodes q (head_q q) = Some hn" "next_n hn = b" "b \<noteq> 0" "nodes q b = Some nb" "b \<noteq> head_q q"
    "b = (case ps of [] \<Rightarrow> tail_q q | p # _ \<Rightarrow> p)" "prev_n nb = head_q q"
  using assms by (cases ps) (auto simp: rep_at_def nxt_def prv_def)

lemma rep_at_subset: "rep_at q ps xs \<Longrightarrow> set ps \<subseteq> dom (nodes q) \<and> tail_q q \<in> dom (nodes q) \<and> head_q q \<in> dom (nodes q)"
  using links_nodes [of q "head_q q # ps @ [tail_q q]"] by (auto simp: rep_at_def)

text \<open>The heap after it, and what is unchanged there: the links behind the head and the data of the other nodes.\<close>

definition linked_in :: "queue_st \<Rightarrow> node \<Rightarrow> nat \<Rightarrow> node \<Rightarrow> nat \<Rightarrow> uint \<Rightarrow> nat \<Rightarrow> bytes \<Rightarrow> queue_st" where
  "linked_in q hn b nb a sz d x =
     q\<lparr>nodes := (nodes q)(b \<mapsto> nb\<lparr>prev_n := a\<rparr>,
         a \<mapsto> \<lparr>prev_n = head_q q, next_n = b, size_n = sz, data_n = d\<rparr>,
         head_q q \<mapsto> hn\<lparr>next_n := a\<rparr>),
       blobs := (blobs q)(d \<mapsto> x), size_q := size_q q + 1\<rparr>"

lemma linked_in_sel [simp]:
  "head_q (linked_in q hn b nb a sz d x) = head_q q" "tail_q (linked_in q hn b nb a sz d x) = tail_q q"
  "size_q (linked_in q hn b nb a sz d x) = size_q q + 1" "blobs (linked_in q hn b nb a sz d x) = (blobs q)(d \<mapsto> x)"
  "nodes (linked_in q hn b nb a sz d x) = (nodes q)(b \<mapsto> nb\<lparr>prev_n := a\<rparr>,
     a \<mapsto> \<lparr>prev_n = head_q q, next_n = b, size_n = sz, data_n = d\<rparr>, head_q q \<mapsto> hn\<lparr>next_n := a\<rparr>)"
  by (simp_all add: linked_in_def)

lemma linked_in_links:
  assumes r: "rep_at q ps xs" and b: "nodes q b = Some nb" "b \<noteq> head_q q" "b = (case ps of [] \<Rightarrow> tail_q q | p # _ \<Rightarrow> p)"
    and ne: "a \<noteq> head_q q" "a \<noteq> b" "a \<noteq> tail_q q" "a \<notin> set ps"
  shows "links (linked_in q hn b nb a sz d x) (head_q q # a # ps @ [tail_q q])"
proof -
  let ?q1 = "linked_in q hn b nb a sz d x"
  obtain rest where rest: "ps @ [tail_q q] = b # rest" using b(3) by (cases ps) auto
  have dist: "distinct (head_q q # b # rest)" using r rest by (auto simp: rep_at_def)
  have l: "links q (b # rest)" using r rest by (simp add: rep_at_def)
  have "links ?q1 (b # rest) = links q (b # rest)"
  proof (rule links_cong)
    fix c assume "c \<in> set (butlast (b # rest))"
    moreover have "set (butlast (b # rest)) = set ps" using rest by (metis butlast_snoc)
    ultimately show "nxt ?q1 c = nxt q c" using ne b(1,2) r by (auto simp: nxt_def rep_at_def)
  next
    fix c assume "c \<in> set (tl (b # rest))"
    then have "c \<noteq> b" "c \<noteq> head_q q" "c \<in> set ps \<union> {tail_q q}"
      using dist rest by (auto, metis Un_iff insert_iff list.set(2) set_append empty_iff list.set(1))
    then show "prv ?q1 c = prv q c" using ne by (auto simp: prv_def)
  qed
  then show ?thesis using l ne b rest by (simp add: nxt_def prv_def)
qed

lemma linked_in_data:
  assumes "p \<noteq> head_q q" "p \<noteq> a" "nodes q b = Some nb" "dat q p \<noteq> d"
  shows "holds (linked_in q hn b nb a sz d x) p y = holds q p y" "dat (linked_in q hn b nb a sz d x) p = dat q p"
  using assms by (cases "p = b"; auto simp: holds_def dat_def)+

lemma linked_in_rep_at:
  assumes r: "rep_at q ps xs" and b: "nodes q b = Some nb" "b \<noteq> head_q q" "b = (case ps of [] \<Rightarrow> tail_q q | p # _ \<Rightarrow> p)"
    and a: "fresh_node q a" and d: "fresh_data q d" "length x = unat sz"
  shows "rep_at (linked_in q hn b nb a sz d x) (a # ps) (xs @ [x])" (is "rep_at ?q1 _ _")
proof -
  have ne: "a \<noteq> 0" "a \<noteq> head_q q" "a \<noteq> b" "a \<noteq> tail_q q" "a \<notin> set ps"
    using a b rep_at_subset [OF r] by (auto simp: fresh_node_def)
  have dne: "dat q p \<noteq> d" if "p \<in> set ps" for p
    using that r d(1) list_all2_holds_dat holds_dat by (fastforce simp: rep_at_def fresh_data_def)
  have same: "holds ?q1 p y = holds q p y" "dat ?q1 p = dat q p" if "p \<in> set ps" for p y
  proof -
    have "p \<noteq> head_q q" "p \<noteq> a" using that ne r by (auto simp: rep_at_def)
    from linked_in_data [OF this b(1) dne [OF that]] show "holds ?q1 p y = holds q p y" "dat ?q1 p = dat q p" .
  qed
  have "list_all2 (holds ?q1) ps (rev xs)"
    using r same(1) by (auto simp: rep_at_def list_all2_conv_all_nth)
  moreover have "holds ?q1 a x" using ne d by (auto simp: holds_def fresh_data_def)
  moreover have "map (dat ?q1) ps = map (dat q) ps" using same(2) by simp
  moreover have "distinct (map (dat q) ps)" "d \<notin> set (map (dat q) ps)" using r dne by (auto simp: rep_at_def)
  moreover have "dat ?q1 a = d" using ne by (simp add: dat_def)
  moreover have "distinct (head_q q # (a # ps) @ [tail_q q])" "0 \<notin> set (head_q q # (a # ps) @ [tail_q q])"
    using r ne by (simp_all add: rep_at_def)
  ultimately show ?thesis
    using linked_in_links [OF r b ne(2-5), of hn sz d x] unfolding rep_at_def linked_in_sel(1,2)
    by (simp only: list.map distinct.simps simp_thms list_all2_Cons rev.simps rev_append append.simps)
qed

lemma enqueue_rep_at:
  assumes r: "rep_at q ps xs" and a: "fresh_node q a" and d: "fresh_data q d" "length junk_d = unat sz"
    and sz: "unat sz \<le> length data"
  shows "\<exists>q'. queue_enqueue a junk d junk_d q data sz = Inr q' \<and> rep_at q' (a # ps) (xs @ [take (unat sz) data])
     \<and> size_q q' = size_q q + 1"
proof -
  obtain hn b nb where b: "nodes q (head_q q) = Some hn" "next_n hn = b" "b \<noteq> 0" "nodes q b = Some nb" "b \<noteq> head_q q"
    "b = (case ps of [] \<Rightarrow> tail_q q | p # _ \<Rightarrow> p)" "prev_n nb = head_q q"
    by (rule rep_at_heads [OF r])
  have "head_q q \<noteq> 0" using r by (simp add: rep_at_def)
  from enqueue_run [OF this b(1-5) a d sz] linked_in_rep_at [OF r b(4-6) a d(1), of "take (unat sz) data" sz hn] sz
  show ?thesis by (simp flip: linked_in_def)
qed

text \<open>Unlinking the node before the tail.\<close>

lemma dequeue_run:
  assumes q: "tail_q q \<noteq> 0" "nodes q (tail_q q) = Some tn" "prev_n tn = p" "p \<noteq> 0" "nodes q p = Some pn"
      "prev_n pn = y" "y \<noteq> 0" "nodes q y = Some yn" "y \<noteq> p" "p \<noteq> tail_q q" "y \<noteq> tail_q q"
    and d: "data_n pn \<noteq> 0" "blobs q (data_n pn) = Some x" "unat (size_n pn) = length x"
    and sz: "size_q q \<noteq> 0" "length x \<le> length dest"
  shows "queue_dequeue q dest =
    Inr (q\<lparr>nodes := (nodes q)(y \<mapsto> yn\<lparr>next_n := tail_q q\<rparr>, tail_q q \<mapsto> tn\<lparr>prev_n := y\<rparr>, p := None),
           blobs := (blobs q)(data_n pn := None), size_q := size_q q - 1\<rparr>, patch dest 0 x, size_n pn)"
proof -
  have cp: "memcpy dest 0 x 0 (length x) = Inr (patch dest 0 x)"
    using sz by (simp add: memcpy_def mem_read_def mem_write_def segment_def)
  show ?thesis
    using q d sz unfolding queue_dequeue_def Let_def
    by (simp add: deref_def set_field_def deref_data_def free_data_def free_node_def cp)
qed

lemma list_all2_snoc: "list_all2 P (xs @ [x]) (ys @ [y]) \<longleftrightarrow> list_all2 P xs ys \<and> P x y"
  using list_all2_rev [of P "xs @ [x]" "ys @ [y]"] list_all2_rev [of P xs ys] by auto

lemma rep_at_last:
  assumes "rep_at q ps (x # xs)"
  obtains p ps' y tn pn yn where "ps = ps' @ [p]" "y = last (head_q q # ps')"
    "tail_q q \<noteq> 0" "nodes q (tail_q q) = Some tn" "prev_n tn = p" "p \<noteq> 0" "nodes q p = Some pn"
    "prev_n pn = y" "y \<noteq> 0" "nodes q y = Some yn" "y \<noteq> p" "p \<noteq> tail_q q" "y \<noteq> tail_q q"
    "data_n pn \<noteq> 0" "blobs q (data_n pn) = Some x" "unat (size_n pn) = length x"
proof -
  from assms obtain ps' p where ps: "ps = ps' @ [p]"
    by (cases ps rule: rev_cases) (auto simp: rep_at_def)
  then have h: "holds q p x" "list_all2 (holds q) ps' (rev xs)"
    using assms by (auto simp: rep_at_def list_all2_snoc)
  define y where "y = last (head_q q # ps')"
  obtain zs where zs: "head_q q # ps' = zs @ [y]" unfolding y_def by (metis append_butlast_last_id list.distinct(1))
  have l: "links q (zs @ y # [p, tail_q q])"
    using assms zs by (simp add: rep_at_def ps del: links.simps)
      (metis append.assoc append_Cons append_Nil)
  then have "nxt q y = Some p" "prv q p = Some y" "nxt q p = Some (tail_q q)" "prv q (tail_q q) = Some p"
    using links_append [of q zs y "[p, tail_q q]"] by simp_all
  moreover have "distinct (zs @ [y, p, tail_q q])" "0 \<notin> set (zs @ [y, p, tail_q q])"
    using assms zs unfolding rep_at_def ps by (metis append.assoc append_Cons append_Nil)+
  ultimately show ?thesis
    using that [OF ps y_def] h(1) by (auto simp: nxt_def prv_def holds_def)
qed

text \<open>The heap after it.\<close>

definition unlinked :: "queue_st \<Rightarrow> nat \<Rightarrow> node \<Rightarrow> node \<Rightarrow> nat \<Rightarrow> node \<Rightarrow> queue_st" where
  "unlinked q y yn tn p pn =
     q\<lparr>nodes := (nodes q)(y \<mapsto> yn\<lparr>next_n := tail_q q\<rparr>, tail_q q \<mapsto> tn\<lparr>prev_n := y\<rparr>, p := None),
       blobs := (blobs q)(data_n pn := None), size_q := size_q q - 1\<rparr>"

lemma unlinked_sel [simp]:
  "head_q (unlinked q y yn tn p pn) = head_q q" "tail_q (unlinked q y yn tn p pn) = tail_q q"
  "size_q (unlinked q y yn tn p pn) = size_q q - 1"
  "nodes (unlinked q y yn tn p pn) = (nodes q)(y \<mapsto> yn\<lparr>next_n := tail_q q\<rparr>, tail_q q \<mapsto> tn\<lparr>prev_n := y\<rparr>, p := None)"
  "blobs (unlinked q y yn tn p pn) = (blobs q)(data_n pn := None)"
  by (simp_all add: unlinked_def)

lemma unlinked_links:
  assumes l: "links q (zs @ [y, p, tail_q q])" and dz: "distinct (zs @ [y, p, tail_q q])" and y: "nodes q y = Some yn"
  shows "links (unlinked q y yn tn p pn) (zs @ [y, tail_q q])"
proof -
  let ?q1 = "unlinked q y yn tn p pn"
  have "links q (zs @ [y])" using l links_append [of q zs y "[p, tail_q q]"] by simp
  moreover have "links ?q1 (zs @ [y]) = links q (zs @ [y])"
  proof (rule links_cong)
    fix c assume "c \<in> set (butlast (zs @ [y]))"
    then show "nxt ?q1 c = nxt q c" using dz by (auto simp: nxt_def)
  next
    fix c assume "c \<in> set (tl (zs @ [y]))"
    then have "c \<in> set (zs @ [y])" by (meson list.set_sel(2) append_is_Nil_conv not_Cons_self2)
    then show "prv ?q1 c = prv q c" using dz y by (auto simp: prv_def)
  qed
  ultimately show ?thesis
    using links_append [of ?q1 zs y "[tail_q q]"] dz by (simp add: nxt_def prv_def)
qed

lemma unlinked_data:
  assumes "c \<noteq> p" "c \<noteq> tail_q q" "nodes q y = Some yn" "dat q c \<noteq> data_n pn"
  shows "holds (unlinked q y yn tn p pn) c z = holds q c z" "dat (unlinked q y yn tn p pn) c = dat q c"
  using assms by (cases "c = y"; auto simp: holds_def dat_def)+

lemma unlinked_rep_at:
  assumes r: "rep_at q (ps @ [p]) (x # xs)" and y: "y = last (head_q q # ps)" "nodes q y = Some yn" and p: "nodes q p = Some pn"
  shows "rep_at (unlinked q y yn tn p pn) ps xs" (is "rep_at ?q1 _ _")
proof -
  have dist: "distinct (head_q q # ps @ [p, tail_q q])" "0 \<notin> set (head_q q # ps @ [tail_q q])"
    using r by (auto simp: rep_at_def)
  obtain zs where zs: "head_q q # ps = zs @ [y]" unfolding y(1) by (metis append_butlast_last_id list.distinct(1))
  then have tails: "head_q q # ps @ ts = zs @ y # ts" for ts by (metis append.assoc append_Cons append_Nil)
  have "links ?q1 (head_q q # ps @ [tail_q q])"
    unfolding tails using r dist(1) tails [of "[p, tail_q q]"]
    by (intro unlinked_links [OF _ _ y(2)]) (simp_all add: rep_at_def del: links.simps)
  moreover have hs: "list_all2 (holds q) ps (rev xs)" "distinct (map (dat q) ps)" "data_n pn \<notin> dat q ` set ps"
    using r p by (auto simp: rep_at_def list_all2_snoc dat_def [of q p])
  have same: "holds ?q1 c z = holds q c z" "dat ?q1 c = dat q c" if "c \<in> set ps" for c z
  proof -
    have "c \<noteq> p" "c \<noteq> tail_q q" "dat q c \<noteq> data_n pn" using that dist(1) hs(3) by auto (metis imageI)
    from unlinked_data [OF this(1,2) y(2) this(3)] show "holds ?q1 c z = holds q c z" "dat ?q1 c = dat q c" .
  qed
  then have "list_all2 (holds ?q1) ps (rev xs)" "map (dat ?q1) ps = map (dat q) ps"
    using hs(1) by (auto simp: list_all2_conv_all_nth)
  moreover from this(2) hs(2) have "distinct (map (dat ?q1) ps)" by (simp only:)
  ultimately show ?thesis
    using dist unfolding rep_at_def by (simp del: links.simps unlinked_sel(4,5))
qed

lemma dequeue_rep_at:
  assumes r: "rep_at q ps (x # xs)" and sz: "size_q q \<noteq> 0" "length x \<le> length dest"
  shows "\<exists>q' ret. queue_dequeue q dest = Inr (q', patch dest 0 x, ret) \<and> unat ret = length x
     \<and> rep_at q' (butlast ps) xs \<and> size_q q' = size_q q - 1"
proof -
  obtain p ps' y tn pn yn where ps: "ps = ps' @ [p]" and y: "y = last (head_q q # ps')"
    and t: "tail_q q \<noteq> 0" "nodes q (tail_q q) = Some tn" "prev_n tn = p" "p \<noteq> 0" "nodes q p = Some pn"
    "prev_n pn = y" "y \<noteq> 0" "nodes q y = Some yn" "y \<noteq> p" "p \<noteq> tail_q q" "y \<noteq> tail_q q"
    and d: "data_n pn \<noteq> 0" "blobs q (data_n pn) = Some x" "unat (size_n pn) = length x"
    by (rule rep_at_last [OF r])
  from unlinked_rep_at [OF r [unfolded ps] y t(8,5)] dequeue_run [OF t d sz] d(3) ps
  show ?thesis by (simp flip: unlinked_def)
qed

lemma enqueue_rep:
  assumes "rep q xs" "fresh_node q a" "fresh_data q d" "length junk_d = unat sz" "unat sz \<le> length data"
  shows "\<exists>q'. queue_enqueue a junk d junk_d q data sz = Inr q' \<and> rep q' (xs @ [take (unat sz) data])"
proof -
  from assms(1) obtain ps where "rep_at q ps xs" and n: "size_q q = word_of_nat (length xs)" by (auto simp: rep_def)
  from enqueue_rep_at [OF this(1) assms(2-5), of junk] n show ?thesis by (auto simp: rep_def)
qed

lemma size_nonzero: "0 < n \<Longrightarrow> n < 2 ^ 32 \<Longrightarrow> (word_of_nat n :: uint) \<noteq> 0"
  by (simp add: word_unat_eq_iff unat_of_nat take_bit_eq_mod)

lemma dequeue_rep:
  assumes "rep q (x # xs)" "length (x # xs) < 2 ^ 32" "length x \<le> length dest"
  shows "\<exists>q' ret. queue_dequeue q dest = Inr (q', patch dest 0 x, ret) \<and> unat ret = length x \<and> rep q' xs"
proof -
  from assms(1) obtain ps where r: "rep_at q ps (x # xs)" and n: "size_q q = word_of_nat (length (x # xs))"
    by (auto simp: rep_def)
  have "size_q q \<noteq> 0" unfolding n using size_nonzero [of "length (x # xs)"] assms(2) by (simp del: of_nat_Suc)
  from dequeue_rep_at [OF r this assms(3)] n show ?thesis by (auto simp: rep_def)
qed

lemma dequeue_empty: "rep q [] \<Longrightarrow> queue_dequeue q dest = Inl (Fatal ''Dequeue attempted on empty queue'')"
  by (simp add: rep_def queue_dequeue_def)

lemma init_rep_at:
  assumes "h \<noteq> t" "h \<noteq> 0" "t \<noteq> 0"
  shows "\<exists>q. queue_init ns bs h jh t jt z = Inr q \<and> rep_at q [] [] \<and> size_q q = z
    \<and> nodes q h = Some (jh\<lparr>next_n := t\<rparr>) \<and> nodes q t = Some (jt\<lparr>prev_n := h\<rparr>) \<and> blobs q = bs \<and> head_q q = h \<and> tail_q q = t"
  using assms by (auto simp: queue_init_def set_field_def deref_def rep_at_def nxt_def prv_def)

subsection \<open>First in, first out\<close>

datatype 'a qop = Enq 'a | Deq 'a

primrec enqueued :: "'a qop list \<Rightarrow> 'a list" where
  "enqueued [] = []"
| "enqueued (p # ops) = (case p of Enq x \<Rightarrow> x # enqueued ops | Deq x \<Rightarrow> enqueued ops)"

primrec dequeued :: "'a qop list \<Rightarrow> 'a list" where
  "dequeued [] = []"
| "dequeued (p # ops) = (case p of Enq x \<Rightarrow> dequeued ops | Deq x \<Rightarrow> x # dequeued ops)"

text \<open>A run of operations, each \<open>Deq\<close> labelled with the element that came out.\<close>

inductive qrun :: "('a \<Rightarrow> 's \<Rightarrow> 's \<Rightarrow> bool) \<Rightarrow> ('s \<Rightarrow> 'a \<Rightarrow> 's \<Rightarrow> bool) \<Rightarrow> 's \<Rightarrow> 'a qop list \<Rightarrow> 's \<Rightarrow> bool"
  for enq deq where
  Stop: "qrun enq deq s [] s"
| Enqueue: "enq x s s' \<Longrightarrow> qrun enq deq s' ops s'' \<Longrightarrow> qrun enq deq s (Enq x # ops) s''"
| Dequeue: "deq s x s' \<Longrightarrow> qrun enq deq s' ops s'' \<Longrightarrow> qrun enq deq s (Deq x # ops) s''"

inductive_cases qrun_NilE: "qrun enq deq s [] s'"
inductive_cases qrun_EnqE: "qrun enq deq s (Enq x # ops) s'"
inductive_cases qrun_DeqE: "qrun enq deq s (Deq x # ops) s'"

locale fifo =
  fixes rp :: "'s \<Rightarrow> 'a list \<Rightarrow> bool"
    and enq :: "'a \<Rightarrow> 's \<Rightarrow> 's \<Rightarrow> bool"
    and deq :: "'s \<Rightarrow> 'a \<Rightarrow> 's \<Rightarrow> bool"
    and cap :: nat
  assumes enq_rep: "rp s xs \<Longrightarrow> enq x s s' \<Longrightarrow> rp s' (xs @ [x])"
    and deq_rep: "rp s (x # xs) \<Longrightarrow> length (x # xs) < cap \<Longrightarrow> deq s y s' \<Longrightarrow> y = x \<and> rp s' xs"
    and deq_none: "rp s [] \<Longrightarrow> \<not> deq s y s'"
begin

lemma run_fifo:
  "qrun enq deq s ops s' \<Longrightarrow> rp s xs \<Longrightarrow> length xs + length ops < cap
   \<Longrightarrow> \<exists>rest. rp s' rest \<and> xs @ enqueued ops = dequeued ops @ rest"
proof (induction arbitrary: xs rule: qrun.induct)
  case (Enqueue x s s' ops s'')
  then show ?case using enq_rep by fastforce
next
  case (Dequeue s y s' ops s'')
  then obtain x ys where xs: "xs = x # ys" using deq_none by (cases xs) auto
  with Dequeue deq_rep [of s x ys y s'] have "y = x" "rp s' ys" by auto
  with Dequeue.IH [of ys] Dequeue.prems xs show ?case by auto
qed auto

end

text \<open>The two operations as steps: any fresh memory, any large enough destination.\<close>

definition enqueue_step :: "bytes \<Rightarrow> queue_st \<Rightarrow> queue_st \<Rightarrow> bool" where
  "enqueue_step x q q' \<longleftrightarrow> (\<exists>a junk d junk_d. fresh_node q a \<and> fresh_data q d \<and> length junk_d = length x
     \<and> length x < 2 ^ 32 \<and> queue_enqueue a junk d junk_d q x (word_of_nat (length x)) = Inr q')"

definition dequeue_step :: "queue_st \<Rightarrow> bytes \<Rightarrow> queue_st \<Rightarrow> bool" where
  "dequeue_step q x q' \<longleftrightarrow> (\<exists>dest dest' ret. queue_dequeue q dest = Inr (q', dest', ret) \<and> x = take (unat ret) dest')"

lemma enqueue_step_rep: "rep q xs \<Longrightarrow> enqueue_step x q q' \<Longrightarrow> rep q' (xs @ [x])"
proof -
  assume r: "rep q xs" and "enqueue_step x q q'"
  then obtain a junk d junk_d where *: "fresh_node q a" "fresh_data q d" "length junk_d = length x" "length x < 2 ^ 32"
    "queue_enqueue a junk d junk_d q x (word_of_nat (length x)) = Inr q'"
    by (auto simp: enqueue_step_def)
  have "unat (word_of_nat (length x) :: uint) = length x"
    using *(4) by (simp add: unat_of_nat take_bit_eq_mod)
  with enqueue_rep [OF r *(1,2), of junk_d "word_of_nat (length x)" x junk] * show ?thesis by simp
qed

lemma dequeue_dest_bound: 
  assumes "rep q (x # xs)" "length (x # xs) < 2 ^ 32" "queue_dequeue q dest = Inr r"
  shows "length x \<le> length dest"
proof -
  from assms(1) obtain ps where "rep_at q ps (x # xs)" by (auto simp: rep_def)
  from rep_at_last [OF this] obtain tn p pn where
    "tail_q q \<noteq> 0" "nodes q (tail_q q) = Some tn" "prev_n tn = p" "p \<noteq> 0" "nodes q p = Some pn"
    "data_n pn \<noteq> 0" "blobs q (data_n pn) = Some x" "unat (size_n pn) = length x"
    by metis
  with assms(3) show ?thesis
    by (auto simp: queue_dequeue_def deref_def deref_data_def memcpy_def mem_read_def mem_write_def segment_def
        rbind_eq_Inr Let_def split: if_splits)
qed

lemma dequeue_step_rep:
  assumes "rep q (x # xs)" "length (x # xs) < 2 ^ 32" "dequeue_step q y q'"
  shows "y = x \<and> rep q' xs"
proof -
  from assms(3) obtain dest dest' ret where *: "queue_dequeue q dest = Inr (q', dest', ret)" "y = take (unat ret) dest'"
    by (auto simp: dequeue_step_def)
  with dequeue_rep [OF assms(1,2) dequeue_dest_bound [OF assms(1,2) *(1)]] show ?thesis
    by (auto simp: patch_def)
qed

interpretation heap_queue: fifo rep enqueue_step dequeue_step "2 ^ 32"
proof unfold_locales
  show "rep s [] \<Longrightarrow> \<not> dequeue_step s y s'" for s y s'
    by (simp add: dequeue_step_def dequeue_empty)
qed (use enqueue_step_rep dequeue_step_rep in blast)+


definition blank_node :: node where
  "blank_node = \<lparr>prev_n = 0, next_n = 0, size_n = 0, data_n = 0\<rparr>"

definition one_queue :: queue_st where
  "one_queue = \<lparr>nodes = [1 \<mapsto> blank_node\<lparr>next_n := 2\<rparr>, 2 \<mapsto> blank_node\<lparr>prev_n := 1\<rparr>], blobs = Map.empty,
     head_q = 1, tail_q = 2, size_q = 0\<rparr>"

definition two_queue :: queue_st where
  "two_queue = one_queue\<lparr>nodes := [1 \<mapsto> blank_node\<lparr>next_n := 3\<rparr>, 2 \<mapsto> blank_node\<lparr>prev_n := 3\<rparr>,
      3 \<mapsto> \<lparr>prev_n = 1, next_n = 2, size_n = 2, data_n = 9\<rparr>], blobs := [9 \<mapsto> [7, 8]], size_q := 1\<rparr>"

lemma one_queue_init: "queue_init Map.empty Map.empty 1 blank_node 2 blank_node 0 = Inr one_queue"
  by (simp add: queue_init_def set_field_def deref_def one_queue_def blank_node_def fun_upd_twist)

lemma two_queue_step: "enqueue_step [7, 8] one_queue two_queue"
  unfolding enqueue_step_def
  by (intro exI [of _ 3] exI [of _ blank_node] exI [of _ 9] exI [of _ "[0, 0]"])
    (simp add: fresh_node_def fresh_data_def one_queue_def two_queue_def blank_node_def queue_enqueue_def deref_def
      set_field_def memcpy_def mem_read_def mem_write_def segment_def patch_def Let_def fun_upd_twist)

lemma two_queue_run: "qrun enqueue_step dequeue_step one_queue [Enq [7, 8]] two_queue"
  using two_queue_step by (rule Enqueue) (rule Stop)


text \<open>
  \<^verbatim>\<open>queue_dequeue\<close> on a queue of fewer than \<open>2\<^sup>3\<^sup>2\<close> elements, every one of which fits into \<^verbatim>\<open>dest\<close>: an
  empty queue ends the program with the message of the source; otherwise the call succeeds, writes the
  oldest element to the front of \<^verbatim>\<open>dest\<close>, returns its length and leaves the queue of the others.
\<close>

lemma queue_dequeue_total:
  assumes "rep q xs" "length xs < 2 ^ 32" "\<forall>x \<in> set xs. length x \<le> length dest"
  shows "case xs of
      [] \<Rightarrow> queue_dequeue q dest = Inl (Fatal ''Dequeue attempted on empty queue'')
    | x # ys \<Rightarrow> \<exists>q' ret. queue_dequeue q dest = Inr (q', patch dest 0 x, ret) \<and> unat ret = length x \<and> rep q' ys"
  using assms dequeue_empty dequeue_rep [of q _ _ dest] by (cases xs) auto

lemma two_queue_rep: "rep two_queue [[7, 8]]"
  unfolding rep_def
  by (intro conjI exI [of _ "[3]"])
    (auto simp: rep_at_def two_queue_def one_queue_def blank_node_def nxt_def prv_def holds_def)

lemma queue_dequeue_total_witness:
  "\<exists>q' ret. queue_dequeue two_queue [0, 0, 0] = Inr (q', [7, 8, 0], ret) \<and> unat ret = length [7, 8 :: uchar] \<and> rep q' []"
  using queue_dequeue_total [OF two_queue_rep, of "[0, 0, 0]"] by (simp add: patch_def)

text \<open>
  \<^verbatim>\<open>queue_init\<close> does not set \<^verbatim>\<open>q->size\<close>: when the allocated memory does not happen to hold 0
  there, a dequeue from the new, empty queue does not reach the intended error. It follows the \<^verbatim>\<open>data\<close>
  pointer of the head sentinel, which is never set either, and faults unless that points to a live object.
\<close>

lemma queue_init_size_uninitialised:
  assumes "h \<noteq> t" "h \<noteq> 0" "t \<noteq> 0" "junk_size \<noteq> 0" "bs (data_n junk_h) = None"
  shows "\<exists>q. queue_init ns bs h junk_h t junk_t junk_size = Inr q
    \<and> queue_dequeue q dest = Inl (if data_n junk_h = 0 then NullPointer else BadPointer)"
proof -
  obtain q where q: "queue_init ns bs h junk_h t junk_t junk_size = Inr q" "size_q q = junk_size"
    "nodes q h = Some (junk_h\<lparr>next_n := t\<rparr>)" "nodes q t = Some (junk_t\<lparr>prev_n := h\<rparr>)" "blobs q = bs"
    "head_q q = h" "tail_q q = t"
    using init_rep_at [OF assms(1-3), of ns bs junk_h junk_t junk_size] by blast
  with assms show ?thesis
    by (simp add: queue_dequeue_def deref_def deref_data_def)
qed

lemma queue_init_size_uninitialised_witness:
  "\<exists>q. queue_init Map.empty Map.empty 1 (blank_node\<lparr>data_n := 5\<rparr>) 2 blank_node 3 = Inr q
    \<and> queue_dequeue q [] = Inl BadPointer"
  using queue_init_size_uninitialised [of 1 2 3 Map.empty "blank_node\<lparr>data_n := 5\<rparr>" Map.empty blank_node "[]"]
  by (simp add: blank_node_def)

subsection \<open>Disposal\<close>

text \<open>Memory without the data of some nodes.\<close>

definition data_of :: "queue_st \<Rightarrow> nat list \<Rightarrow> nat list" where
  "data_of s ps = filter (\<lambda>d. d \<noteq> 0) (map (dat s) ps)"

definition release :: "nat \<Rightarrow> queue_st \<Rightarrow> queue_st" where
  "release c s = s\<lparr>nodes := (nodes s)(c := None), blobs := (if dat s c = 0 then blobs s else (blobs s)(dat s c := None))\<rparr>"

lemma fatal_step:
  assumes "c \<noteq> 0" "nxt s c = Some b" "b \<noteq> 0" "dat s c \<noteq> 0 \<longrightarrow> blobs s (dat s c) \<noteq> None"
  shows "queue_fatal_loop c s = queue_fatal_loop b (release c s)"
proof -
  obtain n where n: "nodes s c = Some n" "next_n n = b" using assms(2) by (auto simp: nxt_def)
  then have "rbind (free_data (data_n n) s) (free_node c) = Inr (release c s)"
    using assms by (auto simp: free_data_def free_node_def release_def dat_def)
  with n assms show ?thesis
    by (subst queue_fatal_loop.simps) (simp add: deref_def)
qed

lemma fatal_stop: "c \<noteq> 0 \<Longrightarrow> nxt s c = Some 0 \<Longrightarrow> queue_fatal_loop c s = Some (Inr s)"
  by (subst queue_fatal_loop.simps) (auto simp: deref_def nxt_def)

lemma fatal_loop:
  "links s (c # ps @ [t]) \<Longrightarrow> distinct (c # ps @ [t]) \<Longrightarrow> 0 \<notin> set (c # ps @ [t]) \<Longrightarrow> nxt s t = Some 0
   \<Longrightarrow> \<forall>d \<in> set (data_of s (c # ps)). blobs s d \<noteq> None \<Longrightarrow> distinct (data_of s (c # ps))
   \<Longrightarrow> \<exists>s'. queue_fatal_loop c s = Some (Inr s') \<and> nodes s' = nodes s |` (- set (c # ps))
      \<and> blobs s' = blobs s |` (- set (data_of s (c # ps)))"
proof (induction ps arbitrary: c s)
  case Nil
  then have "queue_fatal_loop c s = queue_fatal_loop t (release c s)"
    by (intro fatal_step) (auto simp: data_of_def)
  moreover have "queue_fatal_loop t (release c s) = Some (Inr (release c s))"
    using Nil by (intro fatal_stop) (auto simp: release_def nxt_def)
  ultimately show ?case
    by (auto simp: release_def data_of_def restrict_map_def fun_eq_iff)
next
  case (Cons p ps)
  let ?s = "release c s"
  have step: "queue_fatal_loop c s = queue_fatal_loop p ?s"
    using Cons.prems by (intro fatal_step) (auto simp: data_of_def)
  have d: "dat ?s x = dat s x" if "x \<in> set (p # ps)" for x
    using that Cons.prems(2) by (auto simp: release_def dat_def)
  then have do: "data_of ?s (p # ps) = data_of s (p # ps)"
    unfolding data_of_def by (metis (no_types, lifting) map_eq_conv)
  have c: "dat s c \<notin> set (data_of s (p # ps))"
    using Cons.prems(6) by (auto simp: data_of_def split: if_splits)
  have "links ?s (p # ps @ [t]) = links s (p # ps @ [t])"
    using Cons.prems(2) by (intro links_cong) (auto simp: release_def nxt_def prv_def dest: in_set_butlastD)
  moreover have "links s (p # ps @ [t])" using Cons.prems(1) by simp
  moreover have "\<forall>d \<in> set (data_of ?s (p # ps)). blobs ?s d \<noteq> None"
  proof
    fix d assume "d \<in> set (data_of ?s (p # ps))"
    then have "d \<noteq> dat s c" "d \<in> set (data_of s (c # p # ps))" using c unfolding do by (auto simp: data_of_def)
    then show "blobs ?s d \<noteq> None" using Cons.prems(5) by (auto simp: release_def)
  qed
  moreover have "distinct (data_of ?s (p # ps))"
    unfolding do using Cons.prems(6) by (auto simp: data_of_def split: if_splits)
  moreover have "nxt ?s t = Some 0" using Cons.prems(2,4) by (auto simp: release_def nxt_def)
  ultimately obtain s' where s': "queue_fatal_loop p ?s = Some (Inr s')" "nodes s' = nodes ?s |` (- set (p # ps))"
    "blobs s' = blobs ?s |` (- set (data_of ?s (p # ps)))"
    using Cons.IH [of ?s p] Cons.prems by (auto simp del: links.simps)
  have "nodes s' = nodes s |` (- set (c # p # ps))"
    unfolding s'(2) by (auto simp: release_def restrict_map_def fun_eq_iff)
  moreover have "blobs s' = blobs s |` (- set (data_of s (c # p # ps)))"
    unfolding s'(3) do by (auto simp: release_def restrict_map_def fun_eq_iff data_of_def)
  ultimately show ?case using step s'(1) by simp
qed

text \<open>
  \<^verbatim>\<open>queue_fatal\<close> ends and frees the head sentinel and every element with its data, and nothing else, so the
  tail sentinel leaks, provided the memory that was never initialised (\<^verbatim>\<open>tail->next\<close> and \<^verbatim>\<open>head->data\<close>)
  happens to be \<^verbatim>\<open>NULL\<close>.
\<close>

lemma queue_fatal_frees:
  assumes "rep_at q ps xs" "nxt q (tail_q q) = Some 0" "dat q (head_q q) = 0"
  shows "\<exists>q'. queue_fatal q = Some (Inr q') \<and> nodes q' = nodes q |` (- set (head_q q # ps))
     \<and> blobs q' = blobs q |` (- dat q ` set ps)"
proof -
  have all: "\<exists>x. holds q p x" if "p \<in> set ps" for p
    using assms(1) list_all2_holds_dat that by (auto simp: rep_at_def)
  then have "dat q p \<noteq> 0" "blobs q (dat q p) \<noteq> None" if "p \<in> set ps" for p
    using that holds_dat [of q p] by (auto simp: holds_def dat_def dest!: all)
  then have d: "data_of q (head_q q # ps) = map (dat q) ps" "\<forall>d \<in> set (map (dat q) ps). blobs q d \<noteq> None"
    using assms(3) by (auto simp: data_of_def filter_id_conv)
  then show ?thesis
    using fatal_loop [of q "head_q q" ps "tail_q q"] assms(1,2)
    by (auto simp: rep_at_def queue_fatal_def simp del: links.simps)
qed

lemma two_queue_rep_at: "rep_at two_queue [3] [[7, 8]]"
  by (auto simp: rep_at_def two_queue_def one_queue_def blank_node_def nxt_def prv_def holds_def)

lemma queue_fatal_frees_witness:
  "\<exists>q'. queue_fatal two_queue = Some (Inr q') \<and> dom (nodes q') = {2} \<and> dom (blobs q') = {}"
  using queue_fatal_frees [OF two_queue_rep_at]
  by (auto simp: two_queue_def one_queue_def blank_node_def nxt_def dat_def)

end
