(* ===== verification/Shared.thy ===== *)
theory Shared
  imports Prelude
begin

text \<open>
  The constants of \<^verbatim>\<open>src/include/shared.h\<close>: sizes and positions as natural numbers (they index buffers), the
  others at the width at which the code uses them. \<^verbatim>\<open>__VERSION\<close> is called \<open>VERSION\<close>. The last part proves
  that the declared positions and sizes of the serialised structures fit together.
\<close>

subsection \<open>Configuration and crypto sizes\<close>

abbreviation (input) VERSION :: ushort where
  "VERSION \<equiv> 1"

abbreviation (input) VERBOSE :: int where
  "VERBOSE \<equiv> 1"

abbreviation (input) MINING_REWARD :: uint where
  "MINING_REWARD \<equiv> 100"

abbreviation (input) REASONABLE_CONFIRMATIONS :: uint where
  "REASONABLE_CONFIRMATIONS \<equiv> 6"

abbreviation (input) MAX_CONNECTED_PEERS :: nat where
  "MAX_CONNECTED_PEERS \<equiv> 8"

abbreviation (input) TX_COUNT_SOFT_LIMIT :: nat where
  "TX_COUNT_SOFT_LIMIT \<equiv> 500"

abbreviation (input) SIZE_SHA256 :: nat where
  "SIZE_SHA256 \<equiv> 32"

abbreviation (input) SIZE_RSA1024 :: nat where
  "SIZE_RSA1024 \<equiv> 128"

subsection \<open>Transactions\<close>

abbreviation (input) MAX_TX_SIZE :: uint where
  "MAX_TX_SIZE \<equiv> 1048576"

abbreviation (input) POS_TX_HEADER :: nat where
  "POS_TX_HEADER \<equiv> 0"

abbreviation (input) SIZE_TX_HEADER :: nat where
  "SIZE_TX_HEADER \<equiv> 10"

abbreviation (input) SIZE_TX_INPUT :: nat where
  "SIZE_TX_INPUT \<equiv> 290"

abbreviation (input) SIZE_TX_OUTPUT :: nat where
  "SIZE_TX_OUTPUT \<equiv> 36"

abbreviation (input) POS_TX_VERSION :: nat where
  "POS_TX_VERSION \<equiv> 0"

abbreviation (input) POS_TX_IN_COUNT :: nat where
  "POS_TX_IN_COUNT \<equiv> 2"

abbreviation (input) POS_TX_OUT_COUNT :: nat where
  "POS_TX_OUT_COUNT \<equiv> 4"

abbreviation (input) POS_TX_LOCK_TIME :: nat where
  "POS_TX_LOCK_TIME \<equiv> 6"

abbreviation (input) POS_TX_BODY :: nat where
  "POS_TX_BODY \<equiv> 10"

abbreviation (input) SIZE_TX_VERSION :: nat where
  "SIZE_TX_VERSION \<equiv> 2"

abbreviation (input) SIZE_TX_IN_COUNT :: nat where
  "SIZE_TX_IN_COUNT \<equiv> 2"

abbreviation (input) SIZE_TX_OUT_COUNT :: nat where
  "SIZE_TX_OUT_COUNT \<equiv> 2"

abbreviation (input) SIZE_TX_LOCK_TIME :: nat where
  "SIZE_TX_LOCK_TIME \<equiv> 4"

abbreviation (input) POS_TX_INPUT_REF_TX :: nat where
  "POS_TX_INPUT_REF_TX \<equiv> 0"

abbreviation (input) POS_TX_INPUT_OUT_INDEX :: nat where
  "POS_TX_INPUT_OUT_INDEX \<equiv> 32"

abbreviation (input) POS_TX_INPUT_PUBKEY :: nat where
  "POS_TX_INPUT_PUBKEY \<equiv> 34"

abbreviation (input) POS_TX_INPUT_SIG :: nat where
  "POS_TX_INPUT_SIG \<equiv> 162"

abbreviation (input) SIZE_TX_INPUT_REF_TX :: nat where
  "SIZE_TX_INPUT_REF_TX \<equiv> 32"

abbreviation (input) SIZE_TX_INPUT_OUT_INDEX :: nat where
  "SIZE_TX_INPUT_OUT_INDEX \<equiv> 2"

abbreviation (input) SIZE_TX_INPUT_PUBKEY :: nat where
  "SIZE_TX_INPUT_PUBKEY \<equiv> 128"

abbreviation (input) SIZE_TX_INPUT_SIG :: nat where
  "SIZE_TX_INPUT_SIG \<equiv> 128"

abbreviation (input) POS_TX_OUT_ADDRESS :: nat where
  "POS_TX_OUT_ADDRESS \<equiv> 0"

abbreviation (input) POS_TX_OUT_AMOUNT :: nat where
  "POS_TX_OUT_AMOUNT \<equiv> 32"

abbreviation (input) SIZE_TX_OUT_ADDRESS :: nat where
  "SIZE_TX_OUT_ADDRESS \<equiv> 32"

abbreviation (input) SIZE_TX_OUT_AMOUNT :: nat where
  "SIZE_TX_OUT_AMOUNT \<equiv> 4"

subsection \<open>Blocks\<close>

abbreviation (input) MAX_BLOCK_SIZE :: uint where
  "MAX_BLOCK_SIZE \<equiv> 1048576"

abbreviation (input) POS_BLOCK_HEADER :: nat where
  "POS_BLOCK_HEADER \<equiv> 0"

abbreviation (input) SIZE_BLOCK_HEADER :: nat where
  "SIZE_BLOCK_HEADER \<equiv> 83"

abbreviation (input) POS_BLOCK_VERSION :: nat where
  "POS_BLOCK_VERSION \<equiv> 0"

abbreviation (input) POS_BLOCK_TIME :: nat where
  "POS_BLOCK_TIME \<equiv> 2"

abbreviation (input) POS_BLOCK_HEIGHT :: nat where
  "POS_BLOCK_HEIGHT \<equiv> 6"

abbreviation (input) POS_BLOCK_PREV_HASH :: nat where
  "POS_BLOCK_PREV_HASH \<equiv> 10"

abbreviation (input) POS_BLOCK_MERKLE_ROOT :: nat where
  "POS_BLOCK_MERKLE_ROOT \<equiv> 42"

abbreviation (input) POS_BLOCK_TARGET :: nat where
  "POS_BLOCK_TARGET \<equiv> 74"

abbreviation (input) POS_BLOCK_NONCE :: nat where
  "POS_BLOCK_NONCE \<equiv> 75"

abbreviation (input) POS_BLOCK_TX_COUNT :: nat where
  "POS_BLOCK_TX_COUNT \<equiv> 79"

abbreviation (input) SIZE_BLOCK_VERSION :: nat where
  "SIZE_BLOCK_VERSION \<equiv> 2"

abbreviation (input) SIZE_BLOCK_TIME :: nat where
  "SIZE_BLOCK_TIME \<equiv> 4"

abbreviation (input) SIZE_BLOCK_HEIGHT :: nat where
  "SIZE_BLOCK_HEIGHT \<equiv> 4"

abbreviation (input) SIZE_BLOCK_PREV_HASH :: nat where
  "SIZE_BLOCK_PREV_HASH \<equiv> 32"

abbreviation (input) SIZE_BLOCK_MERKLE_ROOT :: nat where
  "SIZE_BLOCK_MERKLE_ROOT \<equiv> 32"

abbreviation (input) SIZE_BLOCK_TARGET :: nat where
  "SIZE_BLOCK_TARGET \<equiv> 1"

abbreviation (input) SIZE_BLOCK_NONCE :: nat where
  "SIZE_BLOCK_NONCE \<equiv> 4"

abbreviation (input) SIZE_BLOCK_TX_COUNT :: nat where
  "SIZE_BLOCK_TX_COUNT \<equiv> 4"

subsection \<open>Networking\<close>

abbreviation (input) MAX_MSG_SIZE :: nat where
  "MAX_MSG_SIZE \<equiv> 2097152"

abbreviation (input) TESTNET_EPOCH :: uint where
  "TESTNET_EPOCH \<equiv> 1483228800"

abbreviation (input) RECALC_TARGET_INTERVAL :: uint where
  "RECALC_TARGET_INTERVAL \<equiv> 144"

abbreviation (input) SECONDS_IN_20_MINUTES :: uint where
  "SECONDS_IN_20_MINUTES \<equiv> 1200"

abbreviation (input) SECONDS_IN_HALF_WEEK :: uint where
  "SECONDS_IN_HALF_WEEK \<equiv> 5040"

abbreviation (input) SECONDS_IN_8_WEEKS :: uint where
  "SECONDS_IN_8_WEEKS \<equiv> 80640"

subsection \<open>Content and data type codes\<close>

abbreviation (input) CTYPE_REJECT :: uchar where
  "CTYPE_REJECT \<equiv> 0"

abbreviation (input) CTYPE_GETBLOCKS :: uchar where
  "CTYPE_GETBLOCKS \<equiv> 1"

abbreviation (input) CTYPE_MEMPOOL :: uchar where
  "CTYPE_MEMPOOL \<equiv> 2"

abbreviation (input) CTYPE_INV :: uchar where
  "CTYPE_INV \<equiv> 3"

abbreviation (input) CTYPE_GETDATA :: uchar where
  "CTYPE_GETDATA \<equiv> 4"

abbreviation (input) CTYPE_BLOCK :: uchar where
  "CTYPE_BLOCK \<equiv> 5"

abbreviation (input) CTYPE_TX :: uchar where
  "CTYPE_TX \<equiv> 6"

abbreviation (input) CTYPE_PEER :: uchar where
  "CTYPE_PEER \<equiv> 7"

abbreviation (input) CTYPE_ALERT :: uchar where
  "CTYPE_ALERT \<equiv> 8"

abbreviation (input) CTYPE_PING :: uchar where
  "CTYPE_PING \<equiv> 9"

abbreviation (input) CTYPE_PONG :: uchar where
  "CTYPE_PONG \<equiv> 10"

abbreviation (input) DTYPE_BLOCK :: uchar where
  "DTYPE_BLOCK \<equiv> 0"

abbreviation (input) DTYPE_TX :: uchar where
  "DTYPE_TX \<equiv> 1"

abbreviation (input) DTYPE_NODE :: uchar where
  "DTYPE_NODE \<equiv> 2"

subsection \<open>Message positions\<close>

abbreviation (input) POS_MSG_VERSION :: nat where
  "POS_MSG_VERSION \<equiv> 0"

abbreviation (input) POS_MSG_CTYPE :: nat where
  "POS_MSG_CTYPE \<equiv> 2"

abbreviation (input) CTYPE_REJECT_POS_ERRORTYPE :: nat where
  "CTYPE_REJECT_POS_ERRORTYPE \<equiv> 0"

abbreviation (input) CTYPE_REJECT_POS_INFO_SIZE :: nat where
  "CTYPE_REJECT_POS_INFO_SIZE \<equiv> 1"

abbreviation (input) CTYPE_REJECT_POS_INFO :: nat where
  "CTYPE_REJECT_POS_INFO \<equiv> 2"

abbreviation (input) CTYPE_GETBLOCKS_POS_START_BLOCK :: nat where
  "CTYPE_GETBLOCKS_POS_START_BLOCK \<equiv> 0"

abbreviation (input) CTYPE_GETBLOCKS_POS_BLOCK_COUNT :: nat where
  "CTYPE_GETBLOCKS_POS_BLOCK_COUNT \<equiv> 32"

abbreviation (input) CTYPE_INV_POS_DATATYPE :: nat where
  "CTYPE_INV_POS_DATATYPE \<equiv> 0"

abbreviation (input) CTYPE_INV_POS_IDS_COUNT :: nat where
  "CTYPE_INV_POS_IDS_COUNT \<equiv> 1"

abbreviation (input) CTYPE_INV_POS_IDS :: nat where
  "CTYPE_INV_POS_IDS \<equiv> 2"

abbreviation (input) CTYPE_GETDATA_POS_DATATYPE :: nat where
  "CTYPE_GETDATA_POS_DATATYPE \<equiv> 0"

abbreviation (input) CTYPE_GETDATA_POS_IDS_COUNT :: nat where
  "CTYPE_GETDATA_POS_IDS_COUNT \<equiv> 1"

abbreviation (input) CTYPE_GETDATA_POS_IDS :: nat where
  "CTYPE_GETDATA_POS_IDS \<equiv> 2"

abbreviation (input) CTYPE_BLOCK_POS_SIZE :: nat where
  "CTYPE_BLOCK_POS_SIZE \<equiv> 0"

abbreviation (input) CTYPE_BLOCK_POS_BLOCK :: nat where
  "CTYPE_BLOCK_POS_BLOCK \<equiv> 4"

abbreviation (input) CTYPE_TX_POS_SIZE :: nat where
  "CTYPE_TX_POS_SIZE \<equiv> 0"

abbreviation (input) CTYPE_TX_POS_TX :: nat where
  "CTYPE_TX_POS_TX \<equiv> 4"

abbreviation (input) CTYPE_PEER_POS_PORT :: nat where
  "CTYPE_PEER_POS_PORT \<equiv> 0"

abbreviation (input) CTYPE_PEER_POS_ADDR_LEN :: nat where
  "CTYPE_PEER_POS_ADDR_LEN \<equiv> 2"

abbreviation (input) CTYPE_PEER_POS_ADDR :: nat where
  "CTYPE_PEER_POS_ADDR \<equiv> 4"

abbreviation (input) CTYPE_ALERT_POS_TYPE :: nat where
  "CTYPE_ALERT_POS_TYPE \<equiv> 0"

abbreviation (input) CTYPE_ALERT_POS_COMMAND :: nat where
  "CTYPE_ALERT_POS_COMMAND \<equiv> 1"

abbreviation (input) CTYPE_ALERT_POS_TIME :: nat where
  "CTYPE_ALERT_POS_TIME \<equiv> 2"

abbreviation (input) CTYPE_ALERT_POS_SIG :: nat where
  "CTYPE_ALERT_POS_SIG \<equiv> 6"

abbreviation (input) CTYPE_ALERT_POS_MSG_LEN :: nat where
  "CTYPE_ALERT_POS_MSG_LEN \<equiv> 38"

abbreviation (input) CTYPE_ALERT_POS_MSG :: nat where
  "CTYPE_ALERT_POS_MSG \<equiv> 39"

subsection \<open>Error codes\<close>

abbreviation (input) ERR_BAD_VERSION :: uchar where
  "ERR_BAD_VERSION \<equiv> 1"

abbreviation (input) ERR_MESSAGE_MALFORMED :: uchar where
  "ERR_MESSAGE_MALFORMED \<equiv> 2"

abbreviation (input) ERR_UNKNOWN_CTYPE :: uchar where
  "ERR_UNKNOWN_CTYPE \<equiv> 3"

abbreviation (input) ERR_BLOCK_CONFLICT :: uchar where
  "ERR_BLOCK_CONFLICT \<equiv> 4"

abbreviation (input) ERR_BLOCK_TIME_INVALID :: uchar where
  "ERR_BLOCK_TIME_INVALID \<equiv> 5"

abbreviation (input) ERR_BLOCK_ROOT_INVALID :: uchar where
  "ERR_BLOCK_ROOT_INVALID \<equiv> 6"

abbreviation (input) ERR_BLOCK_TARGET_INVALID :: uchar where
  "ERR_BLOCK_TARGET_INVALID \<equiv> 7"

abbreviation (input) ERR_BLOCK_BAD_HASH :: uchar where
  "ERR_BLOCK_BAD_HASH \<equiv> 8"

abbreviation (input) ERR_BLOCK_BAD_BODY :: uchar where
  "ERR_BLOCK_BAD_BODY \<equiv> 9"

abbreviation (input) ERR_BLOCK_OVERFLOW :: uchar where
  "ERR_BLOCK_OVERFLOW \<equiv> 10"

abbreviation (input) ERR_BLOCK_EXISTS :: uchar where
  "ERR_BLOCK_EXISTS \<equiv> 11"

abbreviation (input) ERR_TX_BAD_SIG :: uchar where
  "ERR_TX_BAD_SIG \<equiv> 13"

abbreviation (input) ERR_TX_BAD_REF :: uchar where
  "ERR_TX_BAD_REF \<equiv> 14"

abbreviation (input) ERR_TX_REF_OVERSPEND :: uchar where
  "ERR_TX_REF_OVERSPEND \<equiv> 15"

subsection \<open>Layout\<close>

text \<open>Fields, each with its position and size, cover the bytes from a start to an end with no gap and no overlap.\<close>

fun tiles :: "nat \<Rightarrow> (nat \<times> nat) list \<Rightarrow> nat \<Rightarrow> bool" where
  "tiles start [] stop = (start = stop)"
| "tiles start ((pos, sz) # fs) stop = (pos = start \<and> tiles (start + sz) fs stop)"

text \<open>
  The field positions and sizes declared for a block header, a transaction header, a transaction input and a
  transaction output each cover exactly the declared total size, so no two fields share a byte.
\<close>

lemma layouts_tile:
  "tiles 0 [(POS_BLOCK_VERSION, SIZE_BLOCK_VERSION), (POS_BLOCK_TIME, SIZE_BLOCK_TIME),
      (POS_BLOCK_HEIGHT, SIZE_BLOCK_HEIGHT), (POS_BLOCK_PREV_HASH, SIZE_BLOCK_PREV_HASH),
      (POS_BLOCK_MERKLE_ROOT, SIZE_BLOCK_MERKLE_ROOT), (POS_BLOCK_TARGET, SIZE_BLOCK_TARGET),
      (POS_BLOCK_NONCE, SIZE_BLOCK_NONCE), (POS_BLOCK_TX_COUNT, SIZE_BLOCK_TX_COUNT)] SIZE_BLOCK_HEADER
   \<and> tiles 0 [(POS_TX_VERSION, SIZE_TX_VERSION), (POS_TX_IN_COUNT, SIZE_TX_IN_COUNT),
      (POS_TX_OUT_COUNT, SIZE_TX_OUT_COUNT), (POS_TX_LOCK_TIME, SIZE_TX_LOCK_TIME)] SIZE_TX_HEADER
   \<and> POS_TX_BODY = SIZE_TX_HEADER
   \<and> tiles 0 [(POS_TX_INPUT_REF_TX, SIZE_TX_INPUT_REF_TX), (POS_TX_INPUT_OUT_INDEX, SIZE_TX_INPUT_OUT_INDEX),
      (POS_TX_INPUT_PUBKEY, SIZE_TX_INPUT_PUBKEY), (POS_TX_INPUT_SIG, SIZE_TX_INPUT_SIG)] SIZE_TX_INPUT
   \<and> tiles 0 [(POS_TX_OUT_ADDRESS, SIZE_TX_OUT_ADDRESS), (POS_TX_OUT_AMOUNT, SIZE_TX_OUT_AMOUNT)] SIZE_TX_OUTPUT"
  by simp

end
