(* ===== verification/Transactions.thy ===== *)
theory Transactions
  imports Crypto Shared
begin

text \<open>
  \<^verbatim>\<open>src/include/transactions.h\<close>, \<^verbatim>\<open>src/src/transactions.c\<close>: serialised transactions and the Merkle
  root.

  Names that the source uses without declaring are read as follows. \<^verbatim>\<open>POS_TX_IN_REF\<close>, \<^verbatim>\<open>SIZE_TX_OUT_ADDR\<close> and
  their like are the constants \<^verbatim>\<open>POS_TX_INPUT_REF_TX\<close>, \<^verbatim>\<open>SIZE_TX_OUT_ADDRESS\<close>, ... of \<^verbatim>\<open>shared.h\<close>.
  \<^verbatim>\<open>size_ins\<close> and \<^verbatim>\<open>size_outs\<close> in \<^verbatim>\<open>r_tx_gen\<close> are the products that \<^verbatim>\<open>m_tx_gen\<close> computes under these
  names. The call \<^verbatim>\<open>tx_gen(..., dest)\<close> in \<^verbatim>\<open>m_tx_gen\<close> is \<^verbatim>\<open>r_tx_gen(..., tx.data)\<close>. \<^verbatim>\<open>__VERSION__\<close>, a string
  literal of the compiler, is an argument \<open>version\<close>. The functions \<^verbatim>\<open>tx_compute_hash\<close> and \<^verbatim>\<open>tx_get_size\<close>
  are not in the repository and are arguments, functions of the buffer and the offset of the pointer.
\<close>

subsection \<open>Serialisation\<close>

record m_tx =
  hash_t :: "bytes option"
  data_t :: "bytes option"
  size_t :: uint
  max_t :: uint

definition size_ins :: "ushort \<Rightarrow> uint" where
  "size_ins in_count = word_of_nat SIZE_TX_INPUT * ucast in_count"

definition size_outs :: "ushort \<Rightarrow> uint" where
  "size_outs out_count = word_of_nat SIZE_TX_OUTPUT * ucast out_count"

definition r_tx_gen :: "ushort \<Rightarrow> ushort \<Rightarrow> ushort \<Rightarrow> uint \<Rightarrow> bytes \<Rightarrow> nat \<Rightarrow> bytes \<Rightarrow> nat \<Rightarrow> bytes \<Rightarrow> nat \<Rightarrow> bytes res" where
  "r_tx_gen version in_count out_count lock_time ins ioff outs ooff dest off =
     rbind (ustob version dest (off + POS_TX_VERSION)) (\<lambda>dest.
     rbind (ustob in_count dest (off + POS_TX_IN_COUNT)) (\<lambda>dest.
     rbind (ustob out_count dest (off + POS_TX_OUT_COUNT)) (\<lambda>dest.
     rbind (uitob lock_time dest (off + POS_TX_LOCK_TIME)) (\<lambda>dest.
     rbind (memcpy dest (off + POS_TX_BODY) ins ioff (unat (size_ins in_count))) (\<lambda>dest.
     memcpy dest (off + POS_TX_BODY + unat (size_ins in_count)) outs ooff (unat (size_outs out_count)))))))"

text \<open>
  \<^verbatim>\<open>m_tx_gen\<close>; \<open>junk\<close> gives the contents of a new area of a given size. \<^verbatim>\<open>tx_compute_hash(tx.data, tx.hash)\<close> is
  the argument \<open>tx_compute_hash\<close>, which maps the two buffers to the new contents of the second.
\<close>

definition m_tx_gen ::
  "(nat \<Rightarrow> bytes) \<Rightarrow> (bytes \<Rightarrow> bytes \<Rightarrow> bytes) \<Rightarrow> ushort \<Rightarrow> ushort \<Rightarrow> ushort \<Rightarrow> uint
   \<Rightarrow> bytes \<Rightarrow> nat \<Rightarrow> bytes \<Rightarrow> nat \<Rightarrow> m_tx res" where
  "m_tx_gen junk tx_compute_hash version in_count out_count lock_time ins ioff outs ooff =
     (let sz = word_of_nat SIZE_TX_HEADER + size_ins in_count + size_outs out_count in
      if sz > MAX_TX_SIZE then Inl (Fatal ''Tx overflow'')
      else
        rbind (r_tx_gen version in_count out_count lock_time ins ioff outs ooff (junk (unat sz)) 0) (\<lambda>data.
        Inr \<lparr>hash_t = Some (tx_compute_hash data (junk SIZE_SHA256)), data_t = Some data, size_t = sz, max_t = sz\<rparr>))"

text \<open>
  \<^verbatim>\<open>m_tx_die\<close> takes the struct by value: the two areas are freed, the caller's pointers stay. The result is the
  local copy after the call and the areas that were freed.
\<close>

definition m_tx_die :: "m_tx \<Rightarrow> m_tx \<times> bytes list" where
  "m_tx_die tx =
     (let (tx, freed1) = (case data_t tx of Some d \<Rightarrow> (tx\<lparr>data_t := None\<rparr>, [d]) | None \<Rightarrow> (tx, []));
          (tx, freed2) = (case hash_t tx of Some h \<Rightarrow> (tx\<lparr>hash_t := None\<rparr>, [h]) | None \<Rightarrow> (tx, []))
      in (tx, freed1 @ freed2))"

definition r_tx_in_gen :: "bytes \<Rightarrow> ushort \<Rightarrow> bytes \<Rightarrow> bytes \<Rightarrow> bytes \<Rightarrow> nat \<Rightarrow> bytes res" where
  "r_tx_in_gen ref index pubkey sig dest off =
     rbind (memcpy dest (off + POS_TX_INPUT_REF_TX) ref 0 SIZE_TX_INPUT_REF_TX) (\<lambda>dest.
     rbind (ustob index dest (off + POS_TX_INPUT_OUT_INDEX)) (\<lambda>dest.
     rbind (memcpy dest (off + POS_TX_INPUT_PUBKEY) pubkey 0 SIZE_TX_INPUT_PUBKEY) (\<lambda>dest.
     memcpy dest (off + POS_TX_INPUT_SIG) sig 0 SIZE_TX_INPUT_SIG)))"

definition r_tx_out_gen :: "bytes \<Rightarrow> uint \<Rightarrow> bytes \<Rightarrow> nat \<Rightarrow> bytes res" where
  "r_tx_out_gen address amount dest off =
     rbind (memcpy dest (off + POS_TX_OUT_ADDRESS) address 0 SIZE_TX_OUT_ADDRESS) (\<lambda>dest.
     uitob amount dest (off + POS_TX_OUT_AMOUNT))"

subsection \<open>What is written\<close>

lemma unat_size_ins: "unat (size_ins n) = 290 * unat n"
proof -
  have "unat n < 2 ^ 16" using unsigned_less [of n] by simp
  then show ?thesis by (simp add: size_ins_def unat_word_ariths unsigned_ucast_eq take_bit_eq_mod)
qed

lemma unat_size_outs: "unat (size_outs n) = 36 * unat n"
proof -
  have "unat n < 2 ^ 16" using unsigned_less [of n] by simp
  then show ?thesis by (simp add: size_outs_def unat_word_ariths unsigned_ucast_eq take_bit_eq_mod)
qed

definition tx_bytes :: "ushort \<Rightarrow> ushort \<Rightarrow> ushort \<Rightarrow> uint \<Rightarrow> bytes \<Rightarrow> bytes \<Rightarrow> bytes" where
  "tx_bytes version in_count out_count lock_time ins outs =
     enc16 version @ enc16 in_count @ enc16 out_count @ enc32 lock_time @ ins @ outs"

lemma length_tx_bytes [simp]: "length (tx_bytes v i n l ins outs) = 10 + length ins + length outs"
  by (simp add: tx_bytes_def)

lemma patch_extend:
  "off + length xs + length ys \<le> length b \<Longrightarrow> k = off + length xs \<Longrightarrow> patch (patch b off xs) k ys = patch b off (xs @ ys)"
  by (simp add: patch_append)

lemma r_tx_gen_ok:
  assumes "ioff + 290 * unat in_count \<le> length ins" "ooff + 36 * unat out_count \<le> length outs"
    and "off + 10 + 290 * unat in_count + 36 * unat out_count \<le> length dest"
  shows "r_tx_gen version in_count out_count lock_time ins ioff outs ooff dest off
    = Inr (patch dest off (tx_bytes version in_count out_count lock_time
        (segment ins ioff (290 * unat in_count)) (segment outs ooff (36 * unat out_count))))"
  using assms
  by (simp add: r_tx_gen_def unat_size_ins unat_size_outs ustob_ok uitob_ok mem_simps patch_extend tx_bytes_def)

lemma tx_fields:
  "segment (tx_bytes v i n l ins outs) POS_TX_VERSION 2 = enc16 v"
  "segment (tx_bytes v i n l ins outs) POS_TX_IN_COUNT 2 = enc16 i"
  "segment (tx_bytes v i n l ins outs) POS_TX_OUT_COUNT 2 = enc16 n"
  "segment (tx_bytes v i n l ins outs) POS_TX_LOCK_TIME 4 = enc32 l"
  "segment (tx_bytes v i n l ins outs) POS_TX_BODY (length ins) = ins"
  "segment (tx_bytes v i n l ins outs) (POS_TX_BODY + length ins) (length outs) = outs"
  by (simp_all add: tx_bytes_def mem_simps)



text \<open>The size computed by \<^verbatim>\<open>m_tx_gen\<close> does not wrap around.\<close>

lemma unat_m_tx_size:
  "unat (word_of_nat SIZE_TX_HEADER + size_ins in_count + size_outs out_count) = 10 + 290 * unat in_count + 36 * unat out_count"
proof -
  have "unat in_count < 2 ^ 16" "unat out_count < 2 ^ 16"
    using unsigned_less [of in_count] unsigned_less [of out_count] by simp_all
  then show ?thesis by (simp add: unat_word_ariths unat_size_ins unat_size_outs)
qed

lemma m_tx_gen_overflow:
  "1048576 < 10 + 290 * unat in_count + 36 * unat out_count
   \<Longrightarrow> m_tx_gen junk tx_compute_hash version in_count out_count lock_time ins ioff outs ooff = Inl (Fatal ''Tx overflow'')"
  using unat_m_tx_size [of in_count out_count] by (simp add: m_tx_gen_def Let_def word_less_nat_alt)

text \<open>
  C36. \<^verbatim>\<open>m_tx_gen\<close> on inputs and outputs of the announced sizes: the size it computes in 32 bits is the exact size
  (no wrap-around for any counts); it ends with \<^verbatim>\<open>Tx overflow\<close> exactly when that is more than
  \<^verbatim>\<open>MAX_TX_SIZE\<close>; otherwise it succeeds, and the new transaction has the computed size and bytes of that length.
\<close>

theorem m_tx_gen_size:
  assumes "ioff + 290 * unat in_count \<le> length ins" "ooff + 36 * unat out_count \<le> length outs"
    and "\<forall>n. length (junk n) = n"
  shows "if 10 + 290 * unat in_count + 36 * unat out_count > 1048576
    then m_tx_gen junk tx_compute_hash version in_count out_count lock_time ins ioff outs ooff = Inl (Fatal ''Tx overflow'')
    else \<exists>tx data. m_tx_gen junk tx_compute_hash version in_count out_count lock_time ins ioff outs ooff = Inr tx
      \<and> unat (size_t tx) = 10 + 290 * unat in_count + 36 * unat out_count
      \<and> data_t tx = Some data \<and> length data = unat (size_t tx) \<and> max_t tx = size_t tx
      \<and> hash_t tx = Some (tx_compute_hash data (junk 32))"
proof -
  let ?sz = "word_of_nat SIZE_TX_HEADER + size_ins in_count + size_outs out_count"
  have sz: "unat ?sz = 10 + 290 * unat in_count + 36 * unat out_count" by (rule unat_m_tx_size)
  then have big: "?sz > MAX_TX_SIZE \<longleftrightarrow> 10 + 290 * unat in_count + 36 * unat out_count > 1048576"
    by (simp add: word_less_nat_alt)
  have fit: "0 + 10 + 290 * unat in_count + 36 * unat out_count \<le> length (junk (unat ?sz))"
    unfolding sz using assms(3) by simp
  show ?thesis
    using sz assms(3) r_tx_gen_ok [OF assms(1,2) fit, of version lock_time]
    unfolding m_tx_gen_def Let_def big sz by (simp add: mem_simps assms(1,2) sz [unfolded of_nat_numeral])
qed

theorem m_tx_gen_size_witness:
  "m_tx_gen (\<lambda>n. replicate n 0) (\<lambda>d h. h) 1 4000 0 0 (replicate 1160000 0) 0 [] 0 = Inl (Fatal ''Tx overflow'')"
proof -
  have "0 + 290 * unat (4000 :: ushort) \<le> length (replicate 1160000 (0 :: uchar))" by simp
  from m_tx_gen_size [OF this, of 0 0 "[]" "\<lambda>n. replicate n 0" "\<lambda>d h. h" 1 0] show ?thesis by simp
qed

definition tx_in_bytes :: "bytes \<Rightarrow> ushort \<Rightarrow> bytes \<Rightarrow> bytes \<Rightarrow> bytes" where
  "tx_in_bytes ref index pubkey sig = take 32 ref @ enc16 index @ take 128 pubkey @ take 128 sig"

text \<open>
  \<^verbatim>\<open>r_tx_in_gen\<close> and \<^verbatim>\<open>r_tx_out_gen\<close> fill exactly the 290 and 36 bytes of one input and one output: reference,
  index, public key and signature in this order, and address and amount, all other bytes of the buffer unchanged.
\<close>

lemma tx_in_out_layout:
  assumes "32 \<le> length ref" "128 \<le> length pubkey" "128 \<le> length sig" "off + 290 \<le> length dest"
    and "32 \<le> length address" "off' + 36 \<le> length dest'"
  shows "r_tx_in_gen ref index pubkey sig dest off = Inr (patch dest off (tx_in_bytes ref index pubkey sig))
    \<and> length (tx_in_bytes ref index pubkey sig) = SIZE_TX_INPUT
    \<and> r_tx_out_gen address amount dest' off' = Inr (patch dest' off' (take 32 address @ enc32 amount))
    \<and> length (take 32 address @ enc32 amount) = SIZE_TX_OUTPUT"
  using assms
  by (simp add: r_tx_in_gen_def r_tx_out_gen_def tx_in_bytes_def ustob_ok uitob_ok mem_simps patch_extend)
    (simp add: segment_def)

lemma tx_in_out_layout_witness:
  "r_tx_out_gen (replicate 32 5) 100 (replicate 36 0) 0 = Inr (replicate 32 5 @ [0, 0, 0, 100])"
  using tx_in_out_layout [of "replicate 32 0" "replicate 128 0" "replicate 128 0" 0 "replicate 290 0" "replicate 32 5" 0
      "replicate 36 0" 1 100]
  by (simp add: patch_def enc32_def)

end
