(* ===== verification/Merkle.thy ===== *)
theory Merkle
  imports Crypto Shared
begin

text \<open>
  The Merkle root of \<^verbatim>\<open>src/src/transactions.c\<close> and what it commits to.

  \<^verbatim>\<open>compute_merkle_root\<close> works on pointers: an array \<^verbatim>\<open>tree_hashes\<close> of pointers to 32-byte areas and one spare
  area \<^verbatim>\<open>buffer\<close>, exchanged with the destination after every hash. The areas are a list here and a pointer is an index
  into it, so that the exchange, and the sharing it could cause, is modelled. \<open>tx_get_size\<close> is the undeclared
  function of that name.
\<close>

record merkle_st =
  areas :: "bytes list"
  tree_hashes :: "nat list"
  buffer :: nat
  ctx_m :: sha256_ctx

text \<open>One run of the hash functions on \<^verbatim>\<open>ctx\<close> with output to an area.\<close>

definition hash_to :: "nat \<Rightarrow> (bytes \<times> nat \<times> nat) list \<Rightarrow> merkle_st \<Rightarrow> merkle_st res" where
  "hash_to dst pieces st =
     rbind (load (areas st) dst) (\<lambda>old.
     rbind (sha256_run (ctx_m st) pieces old) (\<lambda>(ctx, h).
     Inr (st\<lparr>areas := (areas st)[dst := h], ctx_m := ctx\<rparr>)))"

primrec merkle_leaves :: "(bytes \<Rightarrow> nat \<Rightarrow> uint) \<Rightarrow> bytes \<Rightarrow> nat \<Rightarrow> nat \<Rightarrow> nat \<Rightarrow> uint \<Rightarrow> merkle_st \<Rightarrow> merkle_st res" where
  "merkle_leaves tx_get_size txs off 0 i body_cursor st = Inr st"
| "merkle_leaves tx_get_size txs off (Suc n) i body_cursor st =
     (let tx = off + unat body_cursor; tx_size = tx_get_size txs tx in
      rbind (load (tree_hashes st) i) (\<lambda>p.
      rbind (hash_to p [(txs, tx, unat tx_size)] st) (\<lambda>st.
      merkle_leaves tx_get_size txs off n (i + 1) (body_cursor + tx_size) st)))"

text \<open>Hash of entries \<^verbatim>\<open>i\<close> and \<^verbatim>\<open>j\<close> into \<^verbatim>\<open>buffer\<close>, then the exchange with entry \<^verbatim>\<open>k\<close>.\<close>

definition merkle_pair :: "nat \<Rightarrow> nat \<Rightarrow> nat \<Rightarrow> merkle_st \<Rightarrow> merkle_st res" where
  "merkle_pair k i j st =
     rbind (load (tree_hashes st) i) (\<lambda>p.
     rbind (load (areas st) p) (\<lambda>x.
     rbind (load (tree_hashes st) j) (\<lambda>q.
     rbind (load (areas st) q) (\<lambda>y.
     rbind (hash_to (buffer st) [(x, 0, SIZE_SHA256), (y, 0, SIZE_SHA256)] st) (\<lambda>st.
     rbind (load (tree_hashes st) k) (\<lambda>temp.
     rbind (store (tree_hashes st) k (buffer st)) (\<lambda>t.
     Inr (st\<lparr>tree_hashes := t, buffer := temp\<rparr>))))))))"

text \<open>The inner loop, first argument \<^verbatim>\<open>pair_count - k\<close>; then one pass of the outer loop.\<close>

primrec merkle_pairs :: "nat \<Rightarrow> nat \<Rightarrow> nat \<Rightarrow> merkle_st \<Rightarrow> merkle_st res" where
  "merkle_pairs 0 k i st = Inr st"
| "merkle_pairs (Suc n) k i st = rbind (merkle_pair k i (i + 1) st) (merkle_pairs n (k + 1) (i + 2))"

definition merkle_level :: "nat \<Rightarrow> merkle_st \<Rightarrow> merkle_st res" where
  "merkle_level leaf_count st =
     (let remainder = leaf_count mod 2; pair_count = (leaf_count - remainder) div 2 in
      rbind (merkle_pairs pair_count 0 0 st) (\<lambda>st.
      if remainder \<noteq> 0 then merkle_pair pair_count (leaf_count - 1) (leaf_count - 1) st else Inr st))"

text \<open>
  The outer loop. At the end of a pass \<^verbatim>\<open>k\<close> is \<^verbatim>\<open>pair_count\<close>, plus one if there was a remainder. All counts are
  at most \<^verbatim>\<open>tx_count\<close>, so natural numbers do for the 32-bit variables.
\<close>

function merkle_loop :: "nat \<Rightarrow> merkle_st \<Rightarrow> merkle_st res" where
  "merkle_loop leaf_count st =
     (if leaf_count > 1 then
        rbind (merkle_level leaf_count st)
          (merkle_loop ((leaf_count - leaf_count mod 2) div 2 + leaf_count mod 2))
      else Inr st)"
  by auto
termination
proof (relation "measure fst")
  fix leaf_count :: nat and st st' :: merkle_st
  assume "1 < leaf_count"
  then show "(((leaf_count - leaf_count mod 2) div 2 + leaf_count mod 2, st'), leaf_count, st) \<in> measure fst"
    by simp
qed simp

declare merkle_loop.simps [simp del]

text \<open>
  The whole function: \<open>junk\<close> are the \<^verbatim>\<open>tx_count\<close> areas and the buffer as allocated, \<open>ctx\<close> the context as allocated.
\<close>

definition compute_merkle_root ::
  "bytes list \<Rightarrow> sha256_ctx \<Rightarrow> (bytes \<Rightarrow> nat \<Rightarrow> uint) \<Rightarrow> bytes \<Rightarrow> nat \<Rightarrow> uint \<Rightarrow> bytes \<Rightarrow> nat \<Rightarrow> bytes res" where
  "compute_merkle_root junk ctx tx_get_size txs off tx_count out ooff =
     (let n = unat tx_count;
          st = \<lparr>areas = junk, tree_hashes = [0..<n], buffer = n, ctx_m = ctx\<rparr> in
      rbind (merkle_leaves tx_get_size txs off n 0 0 st) (\<lambda>st.
      rbind (merkle_loop n st) (\<lambda>st.
      rbind (load (tree_hashes st) 0) (\<lambda>p.
      rbind (load (areas st) p) (\<lambda>root.
      memcpy out ooff root 0 SIZE_SHA256)))))"

subsection \<open>Specification\<close>

text \<open>
  A hash tree over any hash function with 32-byte values: neighbours are hashed in pairs, a last odd one with
  itself, until one is left.
\<close>

fun merkle_up :: "(bytes \<Rightarrow> bytes) \<Rightarrow> bytes list \<Rightarrow> bytes list" where
  "merkle_up H [] = []"
| "merkle_up H [x] = [H (x @ x)]"
| "merkle_up H (x # y # zs) = H (x @ y) # merkle_up H zs"

lemma length_merkle_up: "length (merkle_up H xs) = (length xs - length xs mod 2) div 2 + length xs mod 2"
  by (induction H xs rule: merkle_up.induct) (auto, presburger+)

lemma length_merkle_up_le: "length (merkle_up H xs) \<le> length xs"
  by (induction H xs rule: merkle_up.induct) auto

function merkle_root :: "(bytes \<Rightarrow> bytes) \<Rightarrow> bytes list \<Rightarrow> bytes" where
  "merkle_root H [] = []"
| "merkle_root H [x] = x"
| "merkle_root H (x # y # zs) = merkle_root H (merkle_up H (x # y # zs))"
  by pat_completeness auto
termination
proof (relation "measure (length \<circ> snd)")
  fix H x y zs
  show "((H, merkle_up H (x # y # zs)), H, x # y # zs) \<in> measure (length \<circ> snd)"
    using length_merkle_up_le [of H zs] by simp
qed simp

lemma merkle_root_up: "xs \<noteq> [] \<Longrightarrow> length xs \<noteq> 1 \<Longrightarrow> merkle_root H xs = merkle_root H (merkle_up H xs)"
  by (cases "(H, xs)" rule: merkle_root.cases) auto

lemma nth_merkle_up:
  "m < length (merkle_up H xs) \<Longrightarrow>
   merkle_up H xs ! m = H (xs ! (2 * m) @ xs ! (if 2 * m + 1 < length xs then 2 * m + 1 else 2 * m))"
proof (induction H xs arbitrary: m rule: merkle_up.induct)
  case (3 H x y zs)
  then show ?case by (cases m) auto
qed auto

text \<open>The messages that are hashed on the way from a list of leaves to the root.\<close>

fun pair_messages :: "bytes list \<Rightarrow> bytes list" where
  "pair_messages [] = []"
| "pair_messages [x] = [x @ x]"
| "pair_messages (x # y # zs) = (x @ y) # pair_messages zs"

function tree_messages :: "(bytes \<Rightarrow> bytes) \<Rightarrow> bytes list \<Rightarrow> bytes list" where
  "tree_messages H [] = []"
| "tree_messages H [x] = []"
| "tree_messages H (x # y # zs) = pair_messages (x # y # zs) @ tree_messages H (merkle_up H (x # y # zs))"
  by pat_completeness auto
termination
proof (relation "measure (length \<circ> snd)")
  fix H x y zs
  show "((H, merkle_up H (x # y # zs)), H, x # y # zs) \<in> measure (length \<circ> snd)"
    using length_merkle_up_le [of H zs] by simp
qed simp

text \<open>Two different messages of the two lists with the same hash.\<close>

definition collision :: "(bytes \<Rightarrow> bytes) \<Rightarrow> bytes list \<Rightarrow> bytes list \<Rightarrow> bool" where
  "collision H ms ns \<longleftrightarrow> (\<exists>m \<in> set ms. \<exists>n \<in> set ns. m \<noteq> n \<and> H m = H n)"

lemma collision_mono:
  "collision H ms ns \<Longrightarrow> set ms \<subseteq> set ms' \<Longrightarrow> set ns \<subseteq> set ns' \<Longrightarrow> collision H ms' ns'"
  by (auto simp: collision_def)

lemma map_eq_collision: "map H xs = map H ys \<Longrightarrow> xs = ys \<or> collision H xs ys"
proof (induction xs arbitrary: ys)
  case (Cons x xs)
  then obtain y zs where ys: "ys = y # zs" by (cases ys) auto
  with Cons have "xs = zs \<or> collision H xs zs" "H x = H y" by auto
  then show ?case by (auto simp: ys collision_def)
qed simp

lemma merkle_up_eq_cases:
  "length xs = length ys \<Longrightarrow> \<forall>x \<in> set xs \<union> set ys. length x = 32 \<Longrightarrow> merkle_up H xs = merkle_up H ys
   \<Longrightarrow> xs = ys \<or> collision H (pair_messages xs) (pair_messages ys)"
proof (induction H xs arbitrary: ys rule: merkle_up.induct)
  case (2 H x)
  then show ?case by (cases "(H, ys)" rule: merkle_up.cases) (auto simp: collision_def)
next
  case (3 H x y zs)
  then obtain u v ws where ys: "ys = u # v # ws" by (cases "(H, ys)" rule: merkle_up.cases) auto
  with 3 have "zs = ws \<or> collision H (pair_messages zs) (pair_messages ws)" by auto
  moreover have "collision H (pair_messages zs) (pair_messages ws) \<Longrightarrow> collision H (pair_messages (x # y # zs)) (pair_messages ys)"
    by (erule collision_mono) (auto simp: ys)
  ultimately have "zs = ws \<or> collision H (pair_messages (x # y # zs)) (pair_messages ys)" by blast
  moreover have "x @ y = u @ v \<or> collision H (pair_messages (x # y # zs)) (pair_messages ys)"
    using 3 ys by (auto simp: collision_def)
  moreover have "x @ y = u @ v \<longleftrightarrow> x = u \<and> y = v" using 3 ys by auto
  ultimately show ?case using ys by auto
qed auto

locale hash_function =
  fixes H :: "bytes \<Rightarrow> bytes"
  assumes length_H: "length (H m) = 32"
begin

lemma merkle_up_lengths: "x \<in> set (merkle_up H xs) \<Longrightarrow> length x = 32"
  by (induction xs rule: induct_list012) (auto simp: length_H)

lemma root_binding:
  "length xs = length ys \<Longrightarrow> \<forall>x \<in> set xs \<union> set ys. length x = 32 \<Longrightarrow> merkle_root H xs = merkle_root H ys
   \<Longrightarrow> xs = ys \<or> collision H (tree_messages H xs) (tree_messages H ys)"
proof (induction xs arbitrary: ys rule: length_induct)
  case (1 xs)
  show ?case
  proof (cases "(H, xs)" rule: merkle_root.cases)
    case (3 H' x y zs)
    then have xs: "xs = x # y # zs" by simp
    with 1 obtain u v ws where ys: "ys = u # v # ws" by (cases "(H, ys)" rule: merkle_root.cases) auto
    let ?xs = "merkle_up H xs" and ?ys = "merkle_up H ys"
    have "length ?xs < length xs" using length_merkle_up_le [of H zs] by (simp add: xs)
    moreover have "length ?xs = length ?ys" using 1 by (simp add: length_merkle_up)
    moreover have "\<forall>x \<in> set ?xs \<union> set ?ys. length x = 32" using merkle_up_lengths by blast
    moreover have "merkle_root H ?xs = merkle_root H ?ys" using 1 xs ys by simp
    ultimately have "?xs = ?ys \<or> collision H (tree_messages H ?xs) (tree_messages H ?ys)" using 1 by blast
    moreover have "?xs = ?ys \<Longrightarrow> xs = ys \<or> collision H (pair_messages xs) (pair_messages ys)"
      using merkle_up_eq_cases 1 by blast
    moreover have "collision H (tree_messages H ?xs) (tree_messages H ?ys) \<Longrightarrow> ?thesis"
      by (rule disjI2, erule collision_mono) (auto simp: xs ys)
    moreover have "collision H (pair_messages xs) (pair_messages ys) \<Longrightarrow> ?thesis"
      by (rule disjI2, erule collision_mono) (auto simp: xs ys)
    ultimately show ?thesis by blast
  qed (use 1 in \<open>cases ys; auto\<close>)+
qed

lemma length_root: "xs \<noteq> [] \<Longrightarrow> \<forall>x \<in> set xs. length x = 32 \<Longrightarrow> length (merkle_root H xs) = 32"
proof (induction xs rule: length_induct)
  case (1 xs)
  show ?case
  proof (cases "(H, xs)" rule: merkle_root.cases)
    case (3 H' x y zs)
    then have xs: "xs = x # y # zs" by simp
    have "length (merkle_up H xs) < length xs" using length_merkle_up_le [of H zs] by (simp add: xs)
    moreover have "merkle_up H xs \<noteq> []" by (simp add: xs)
    moreover have "\<forall>x \<in> set (merkle_up H xs). length x = 32" using merkle_up_lengths by blast
    ultimately have "length (merkle_root H (merkle_up H xs)) = 32" using 1(1) by blast
    then show ?thesis by (simp add: xs)
  qed (use 1 in auto)
qed

end

text \<open>A last leaf that is doubled leaves the root of an odd list as it was.\<close>

lemma merkle_up_snoc_dup: "odd (length xs) \<Longrightarrow> merkle_up H (xs @ [last xs]) = merkle_up H xs"
proof (induction H xs rule: merkle_up.induct)
  case (3 H x y zs)
  then show ?case by (cases zs) auto
qed auto

lemma merkle_root_dup: "odd (length xs) \<Longrightarrow> length xs \<noteq> 1 \<Longrightarrow> merkle_root H (xs @ [last xs]) = merkle_root H xs"
  using merkle_root_up [of "xs @ [last xs]" H] merkle_root_up [of xs H] merkle_up_snoc_dup [of xs H] by (cases xs) auto

subsection \<open>The code computes the specified root\<close>

text \<open>The 32 bytes that a run of the hash functions of \<^verbatim>\<open>crypto.c\<close> writes for a message.\<close>

definition digest :: "bytes \<Rightarrow> bytes" where
  "digest m = low_bytes4 (std_sha256_words m)"

interpretation sha: hash_function digest
  by unfold_locales (simp add: digest_def)

lemma sha256_run_digest:
  assumes "length (data_c ctx) = 64" "list_all piece_ok pieces" "length hash = 32"
  shows "\<exists>ctx'. sha256_run ctx pieces hash = Inr (ctx', digest (message pieces)) \<and> length (data_c ctx') = 64"
  using sha256_run_ok [OF assms(1,2), of hash] assms(3) by (auto simp: digest_def patch_def)

text \<open>Pointers are pairwise different and valid, areas have their size.\<close>

definition merkle_ok :: "merkle_st \<Rightarrow> bool" where
  "merkle_ok st \<longleftrightarrow> distinct (buffer st # tree_hashes st) \<and> (\<forall>p \<in> set (buffer st # tree_hashes st). p < length (areas st))
     \<and> (\<forall>a \<in> set (areas st). length a = 32) \<and> length (data_c (ctx_m st)) = 64"

definition leaf :: "merkle_st \<Rightarrow> nat \<Rightarrow> bytes" where
  "leaf st i = areas st ! (tree_hashes st ! i)"

definition leaves :: "merkle_st \<Rightarrow> bytes list" where
  "leaves st = map (\<lambda>p. areas st ! p) (tree_hashes st)"

lemma length_leaves [simp]: "length (leaves st) = length (tree_hashes st)"
  by (simp add: leaves_def)

lemma leaves_Nil [simp]: "leaves st = [] \<longleftrightarrow> tree_hashes st = []"
  by (simp add: leaves_def)

lemma nth_leaves [simp]: "i < length (tree_hashes st) \<Longrightarrow> leaves st ! i = leaf st i"
  by (simp add: leaves_def leaf_def)

lemma length_leaf: "merkle_ok st \<Longrightarrow> i < length (tree_hashes st) \<Longrightarrow> length (leaf st i) = 32"
  by (simp add: merkle_ok_def leaf_def)

lemma hash_to_ok:
  assumes "merkle_ok st" "dst < length (areas st)" "list_all piece_ok pieces"
  shows "\<exists>ctx. hash_to dst pieces st = Inr (st\<lparr>areas := (areas st)[dst := digest (message pieces)], ctx_m := ctx\<rparr>)
     \<and> length (data_c ctx) = 64"
  using sha256_run_digest [of "ctx_m st" pieces "areas st ! dst"] assms by (auto simp: hash_to_def merkle_ok_def)

lemma all_area_lengths:
  "\<forall>a \<in> set as. length a = 32 \<Longrightarrow> length x = 32 \<Longrightarrow> \<forall>a \<in> set (as[i := x]). length a = 32"
  by (auto dest: set_update_subset_insert [THEN subsetD])

lemma merkle_pair_ok:
  assumes ok: "merkle_ok st" and k: "k < length (tree_hashes st)" "i < length (tree_hashes st)" "j < length (tree_hashes st)"
  shows "\<exists>st'. merkle_pair k i j st = Inr st' \<and> merkle_ok st' \<and> length (tree_hashes st') = length (tree_hashes st)
     \<and> (\<forall>m < length (tree_hashes st). leaf st' m = (if m = k then digest (leaf st i @ leaf st j) else leaf st m))"
proof -
  let ?t = "tree_hashes st" and ?b = "buffer st"
  let ?ps = "[(leaf st i, 0, 32), (leaf st j, 0, 32)]"
  have len: "length (leaf st i) = 32" "length (leaf st j) = 32" using length_leaf [OF ok] k by auto
  have in_range: "?t ! m < length (areas st)" if "m < length ?t" for m
    using ok that by (simp add: merkle_ok_def)
  have b: "?b < length (areas st)" "?b \<notin> set ?t" "distinct ?t" using ok by (simp_all add: merkle_ok_def)
  obtain ctx where run: "hash_to ?b ?ps st = Inr (st\<lparr>areas := (areas st)[?b := digest (message ?ps)], ctx_m := ctx\<rparr>)"
    and c: "length (data_c ctx) = 64"
    using hash_to_ok [OF ok b(1), of ?ps] len by (auto simp: piece_ok_def)
  have msg: "message ?ps = leaf st i @ leaf st j" using len by (simp add: message_def mem_simps)
  define st' where "st' = st\<lparr>areas := (areas st)[?b := digest (leaf st i @ leaf st j)], ctx_m := ctx,
      tree_hashes := ?t[k := ?b], buffer := ?t ! k\<rparr>"
  have "merkle_pair k i j st = Inr st'"
    using k in_range run unfolding msg by (simp add: merkle_pair_def leaf_def st'_def)
  moreover have "distinct (?t ! k # ?t[k := ?b])"
  proof -
    have "?t ! k \<noteq> ?b" using b(2) nth_mem [OF k(1)] by metis
    then show ?thesis using b k by (auto simp: distinct_list_update set_update_distinct)
  qed
  moreover have "p < length (areas st)" if "p \<in> set (?t ! k # ?t[k := ?b])" for p
  proof -
    from that have "p \<in> set ?t \<or> p = ?b" using k by (auto dest: set_update_subset_insert [THEN subsetD])
    then show ?thesis using ok by (auto simp: merkle_ok_def)
  qed
  moreover have "\<forall>a \<in> set ((areas st)[?b := digest (leaf st i @ leaf st j)]). length a = 32"
    using ok by (intro all_area_lengths) (simp_all add: merkle_ok_def sha.length_H)
  ultimately have st': "merkle_pair k i j st = Inr st'" "merkle_ok st'"
    using ok c by (simp_all add: merkle_ok_def st'_def)
  have "leaf st' m = (if m = k then digest (leaf st i @ leaf st j) else leaf st m)" if "m < length ?t" for m
  proof (cases "m = k")
    case False
    then have "?t ! m \<noteq> ?b" using b(2) that by (metis nth_mem)
    with False show ?thesis by (simp add: st'_def leaf_def)
  qed (use b(1) k in \<open>simp add: st'_def leaf_def\<close>)
  with st' show ?thesis by (auto simp: st'_def)
qed

lemma merkle_pairs_ok:
  "merkle_ok st \<Longrightarrow> 2 * (k + n) \<le> length (tree_hashes st)
   \<Longrightarrow> \<exists>st'. merkle_pairs n k (2 * k) st = Inr st' \<and> merkle_ok st' \<and> length (tree_hashes st') = length (tree_hashes st)
     \<and> (\<forall>m < length (tree_hashes st). leaf st' m =
          (if k \<le> m \<and> m < k + n then digest (leaf st (2 * m) @ leaf st (2 * m + 1)) else leaf st m))"
proof (induction n arbitrary: k st)
  case (Suc n)
  let ?N = "length (tree_hashes st)"
  obtain st1 where 1: "merkle_pair k (2 * k) (2 * k + 1) st = Inr st1" "merkle_ok st1" "length (tree_hashes st1) = ?N"
    "\<forall>m < ?N. leaf st1 m = (if m = k then digest (leaf st (2 * k) @ leaf st (2 * k + 1)) else leaf st m)"
    using merkle_pair_ok [OF Suc.prems(1), of k "2 * k" "2 * k + 1"] Suc.prems(2) by auto
  obtain st2 where 2: "merkle_pairs n (k + 1) (2 * (k + 1)) st1 = Inr st2" "merkle_ok st2" "length (tree_hashes st2) = ?N"
    "\<forall>m < ?N. leaf st2 m = (if k + 1 \<le> m \<and> m < k + 1 + n then digest (leaf st1 (2 * m) @ leaf st1 (2 * m + 1)) else leaf st1 m)"
    using Suc.IH [OF 1(2), of "k + 1"] Suc.prems(2) 1(3) by auto
  have "leaf st2 m = (if k \<le> m \<and> m < k + Suc n then digest (leaf st (2 * m) @ leaf st (2 * m + 1)) else leaf st m)" if "m < ?N" for m
  proof (cases "k + 1 \<le> m \<and> m < k + 1 + n")
    case True
    then have "2 * m + 1 < ?N" using Suc.prems(2) by simp
    with True 1(4) 2(4) that show ?thesis by simp
  next
    case False
    with 1(4) 2(4) that show ?thesis by auto
  qed
  with 1(1) 2 show ?case by simp
qed auto

lemma half_facts:
  fixes p r n m :: nat
  assumes "2 * p + r = n" "r < 2" "m < p + r"
  shows "2 * m < n" "2 * m + 1 < n \<longleftrightarrow> m < p" "\<not> m < p \<Longrightarrow> r \<noteq> 0 \<and> m = p \<and> 2 * m = n - 1"
  using assms by auto

lemma merkle_level_ok:
  assumes ok: "merkle_ok st" and n: "1 < n" "n \<le> length (tree_hashes st)"
  shows "\<exists>st'. merkle_level n st = Inr st' \<and> merkle_ok st' \<and> length (tree_hashes st') = length (tree_hashes st)
     \<and> take ((n - n mod 2) div 2 + n mod 2) (leaves st') = merkle_up digest (take n (leaves st))"
proof -
  let ?N = "length (tree_hashes st)" and ?p = "(n - n mod 2) div 2"
  have p: "?p = n div 2" "2 * ?p + n mod 2 = n" by presburger+
  obtain st1 where 1: "merkle_pairs ?p 0 0 st = Inr st1" "merkle_ok st1" "length (tree_hashes st1) = ?N"
    "\<forall>m < ?N. leaf st1 m = (if m < ?p then digest (leaf st (2 * m) @ leaf st (2 * m + 1)) else leaf st m)"
    using merkle_pairs_ok [OF ok, of 0 ?p] p n(2) by auto
  obtain st2 where 2: "merkle_level n st = Inr st2" "merkle_ok st2" "length (tree_hashes st2) = ?N"
    "\<forall>m < ?N. leaf st2 m = (if n mod 2 \<noteq> 0 \<and> m = ?p then digest (leaf st (n - 1) @ leaf st (n - 1)) else leaf st1 m)"
  proof (cases "n mod 2 = 0")
    case True
    with 1 that [of st1] show ?thesis by (simp add: merkle_level_def Let_def)
  next
    case False
    then have "\<not> n - 1 < ?p" "?p < ?N" "n - 1 < ?N" using n p by linarith+
    with merkle_pair_ok [OF 1(2), of ?p "n - 1" "n - 1"] 1 False that show ?thesis
      by (auto simp: merkle_level_def Let_def)
  qed
  have "take (?p + n mod 2) (leaves st2) = merkle_up digest (take n (leaves st))"
  proof (rule nth_equalityI)
    show "length (take (?p + n mod 2) (leaves st2)) = length (merkle_up digest (take n (leaves st)))"
      using n 2(3) p by (simp add: length_merkle_up min_absorb2)
    fix m assume "m < length (take (?p + n mod 2) (leaves st2))"
    then have m: "m < ?p + n mod 2" "m < ?N" using 2(3) by simp_all
    have up: "m < length (merkle_up digest (take n (leaves st)))" using m n by (simp add: length_merkle_up min_absorb2)
    have "n mod 2 < 2" by simp
    note r = half_facts [OF p(2) this m(1)]
    show "take (?p + n mod 2) (leaves st2) ! m = merkle_up digest (take n (leaves st)) ! m"
      unfolding nth_merkle_up [OF up] using m n r 1(4) 2(3,4) by (cases "m < ?p") auto
  qed
  with 2 show ?thesis by blast
qed

lemma merkle_loop_ok:
  "merkle_ok st \<Longrightarrow> 0 < n \<Longrightarrow> n \<le> length (tree_hashes st)
   \<Longrightarrow> \<exists>st'. merkle_loop n st = Inr st' \<and> merkle_ok st' \<and> length (tree_hashes st') = length (tree_hashes st)
     \<and> leaf st' 0 = merkle_root digest (take n (leaves st))"
proof (induction n arbitrary: st rule: less_induct)
  case (less n)
  show ?case
  proof (cases "n = 1")
    case True
    then have "take n (leaves st) = [leaf st 0]" using less.prems take_Suc_conv_app_nth [of 0 "leaves st"] by (cases "tree_hashes st") auto
    with True less.prems show ?thesis by (simp add: merkle_loop.simps)
  next
    case False
    then have n: "1 < n" using less.prems by simp
    let ?n = "(n - n mod 2) div 2 + n mod 2"
    obtain st1 where 1: "merkle_level n st = Inr st1" "merkle_ok st1" "length (tree_hashes st1) = length (tree_hashes st)"
      "take ?n (leaves st1) = merkle_up digest (take n (leaves st))"
      using merkle_level_ok [OF less.prems(1) n less.prems(3)] by blast
    have "?n < n" "0 < ?n" "?n \<le> length (tree_hashes st1)" using n less.prems(3) 1(3) by (presburger, presburger, linarith)
    with less.IH [of ?n st1] 1 obtain st2 where "merkle_loop ?n st1 = Inr st2" "merkle_ok st2"
      "length (tree_hashes st2) = length (tree_hashes st)" "leaf st2 0 = merkle_root digest (take ?n (leaves st1))" by auto
    moreover have "merkle_root digest (take n (leaves st)) = merkle_root digest (merkle_up digest (take n (leaves st)))"
      using n less.prems(3) by (intro merkle_root_up) auto
    ultimately show ?thesis using n 1 by (simp add: merkle_loop.simps [of n])
  qed
qed

text \<open>The transactions as the loop over the body finds them, and that they lie inside the buffer.\<close>

primrec tx_slices :: "(bytes \<Rightarrow> nat \<Rightarrow> uint) \<Rightarrow> bytes \<Rightarrow> nat \<Rightarrow> nat \<Rightarrow> uint \<Rightarrow> bytes list" where
  "tx_slices tx_get_size txs off 0 cursor = []"
| "tx_slices tx_get_size txs off (Suc n) cursor =
     (let tx = off + unat cursor; sz = tx_get_size txs tx
      in segment txs tx (unat sz) # tx_slices tx_get_size txs off n (cursor + sz))"

primrec txs_fit :: "(bytes \<Rightarrow> nat \<Rightarrow> uint) \<Rightarrow> bytes \<Rightarrow> nat \<Rightarrow> nat \<Rightarrow> uint \<Rightarrow> bool" where
  "txs_fit tx_get_size txs off 0 cursor = True"
| "txs_fit tx_get_size txs off (Suc n) cursor =
     (let tx = off + unat cursor; sz = tx_get_size txs tx
      in tx + unat sz \<le> length txs \<and> txs_fit tx_get_size txs off n (cursor + sz))"

lemma length_tx_slices [simp]: "length (tx_slices f txs off n cursor) = n"
  by (induction n arbitrary: cursor) (auto simp: Let_def)

lemma merkle_leaves_ok:
  "merkle_ok st \<Longrightarrow> i + n \<le> length (tree_hashes st) \<Longrightarrow> txs_fit f txs off n cursor
   \<Longrightarrow> \<exists>st'. merkle_leaves f txs off n i cursor st = Inr st' \<and> merkle_ok st' \<and> tree_hashes st' = tree_hashes st
     \<and> (\<forall>m < length (tree_hashes st). leaf st' m =
          (if i \<le> m \<and> m < i + n then digest (tx_slices f txs off n cursor ! (m - i)) else leaf st m))"
proof (induction n arbitrary: i cursor st)
  case (Suc n)
  let ?t = "tree_hashes st" and ?tx = "off + unat cursor"
  let ?sz = "f txs ?tx"
  let ?d = "digest (segment txs ?tx (unat ?sz))"
  have p: "?t ! i < length (areas st)" "distinct ?t" using Suc.prems(1,2) by (simp_all add: merkle_ok_def)
  obtain ctx where run: "hash_to (?t ! i) [(txs, ?tx, unat ?sz)] st = Inr (st\<lparr>areas := (areas st)[?t ! i := ?d], ctx_m := ctx\<rparr>)"
    and c: "length (data_c ctx) = 64"
    using hash_to_ok [OF Suc.prems(1) p(1), of "[(txs, ?tx, unat ?sz)]"] Suc.prems(3) by (auto simp: piece_ok_def Let_def)
  define st1 where "st1 = st\<lparr>areas := (areas st)[?t ! i := ?d], ctx_m := ctx\<rparr>"
  have "\<forall>a \<in> set ((areas st)[?t ! i := ?d]). length a = 32"
    using Suc.prems(1) by (intro all_area_lengths) (simp_all add: merkle_ok_def sha.length_H)
  then have ok1: "merkle_ok st1" using Suc.prems(1) c by (simp add: merkle_ok_def st1_def)
  have leaf1: "leaf st1 m = (if m = i then ?d else leaf st m)" if "m < length ?t" for m
    using that p Suc.prems(2) by (auto simp: leaf_def st1_def nth_eq_iff_index_eq)
  have "txs_fit f txs off n (cursor + ?sz)" using Suc.prems(3) by (simp add: Let_def)
  with Suc.IH [OF ok1, of "i + 1" "cursor + ?sz"] Suc.prems(2)
  obtain st2 where 2: "merkle_leaves f txs off n (i + 1) (cursor + ?sz) st1 = Inr st2" "merkle_ok st2" "tree_hashes st2 = ?t"
    "\<forall>m < length ?t. leaf st2 m =
       (if i + 1 \<le> m \<and> m < i + 1 + n then digest (tx_slices f txs off n (cursor + ?sz) ! (m - (i + 1))) else leaf st1 m)"
    by (auto simp: st1_def)
  have "leaf st2 m = (if i \<le> m \<and> m < i + Suc n then digest (tx_slices f txs off (Suc n) cursor ! (m - i)) else leaf st m)"
    if "m < length ?t" for m
    using 2(4) leaf1 [OF that] that by (cases "m = i") (auto simp: Let_def nth_Cons' )
  with 2 run Suc.prems(2) show ?case by (simp add: st1_def Let_def)
qed auto

subsection \<open>Properties\<close>

text \<open>The memory that a call of \<^verbatim>\<open>compute_merkle_root\<close> is given.\<close>

definition merkle_args :: "bytes list \<Rightarrow> sha256_ctx \<Rightarrow> (bytes \<Rightarrow> nat \<Rightarrow> uint) \<Rightarrow> bytes \<Rightarrow> nat \<Rightarrow> uint \<Rightarrow> bytes \<Rightarrow> nat \<Rightarrow> bool" where
  "merkle_args junk ctx tx_get_size txs off tx_count out ooff \<longleftrightarrow>
     0 < tx_count \<and> length junk = unat tx_count + 1 \<and> list_all (\<lambda>a. length a = 32) junk \<and> length (data_c ctx) = 64
     \<and> txs_fit tx_get_size txs off (unat tx_count) 0 \<and> ooff + 32 \<le> length out"

lemma compute_merkle_root_eq:
  assumes "merkle_args junk ctx f txs off tx_count out ooff"
  shows "compute_merkle_root junk ctx f txs off tx_count out ooff
    = Inr (patch out ooff (merkle_root digest (map digest (tx_slices f txs off (unat tx_count) 0))))"
proof -
  let ?n = "unat tx_count"
  define st where "st = \<lparr>areas = junk, tree_hashes = [0..<?n], buffer = ?n, ctx_m = ctx\<rparr>"
  have n: "0 < ?n" using assms by (simp add: merkle_args_def word_less_nat_alt)
  have "merkle_ok st" using assms by (auto simp: merkle_args_def merkle_ok_def st_def list_all_iff)
  then obtain st1 where 1: "merkle_leaves f txs off ?n 0 0 st = Inr st1" "merkle_ok st1" "tree_hashes st1 = [0..<?n]"
    "\<forall>m < ?n. leaf st1 m = digest (tx_slices f txs off ?n 0 ! m)"
    using merkle_leaves_ok [of st 0 ?n f txs off 0] assms by (auto simp: merkle_args_def st_def)
  have lv: "take ?n (leaves st1) = map digest (tx_slices f txs off ?n 0)"
    using 1(3,4) by (intro nth_equalityI) simp_all
  obtain st2 where 2: "merkle_loop ?n st1 = Inr st2" "merkle_ok st2" "length (tree_hashes st2) = ?n"
    "leaf st2 0 = merkle_root digest (map digest (tx_slices f txs off ?n 0))"
    using merkle_loop_ok [OF 1(2) n] 1(3) lv by auto
  have "tree_hashes st2 ! 0 < length (areas st2)" using 2(2,3) n by (simp add: merkle_ok_def)
  moreover have "length (leaf st2 0) = 32" using length_leaf [OF 2(2)] 2(3) n by simp
  ultimately show ?thesis
    using 1(1) 2 n assms
    by (simp add: compute_merkle_root_def Let_def st_def [symmetric] leaf_def [symmetric] merkle_args_def mem_simps)
qed

text \<open>
  C2. For at least one transaction, \<^verbatim>\<open>compute_merkle_root\<close> never faults, ends, and writes to \<^verbatim>\<open>out\<close> the root of
  the specified hash tree over the hashes of the transactions, in the order in which they stand in the body: the exchange of
  buffers never overwrites a hash that is still needed.
\<close>

theorem compute_merkle_root_correct:
  assumes "merkle_args junk ctx tx_get_size txs off tx_count out ooff"
  shows "compute_merkle_root junk ctx tx_get_size txs off tx_count out ooff
    = Inr (patch out ooff (merkle_root digest (map digest (tx_slices tx_get_size txs off (unat tx_count) 0))))"
  using compute_merkle_root_eq [OF assms] .

lemma unat_three: "unat (3 :: uint) = Suc (Suc (Suc 0))"
  by simp

lemma unat_four: "unat (3 + 1 :: uint) = Suc (Suc (Suc (Suc 0)))"
  by simp

lemma three_txs: "merkle_args (replicate 4 (replicate 32 0)) some_ctx (\<lambda>_ _. 1) [1, 2, 3] 0 3 (replicate 32 0) 0"
  unfolding merkle_args_def unat_three by (simp add: some_ctx_def list_all_iff Let_def)

lemma three_slices: "tx_slices (\<lambda>_ _. 1) [1, 2, 3] 0 (unat (3 :: uint)) 0 = [[1], [2], [3]]"
  unfolding unat_three by (simp add: Let_def segment_def)

theorem compute_merkle_root_correct_witness:
  "compute_merkle_root (replicate 4 (replicate 32 0)) some_ctx (\<lambda>_ _. 1) [1, 2, 3] 0 3 (replicate 32 0) 0
   = Inr (digest (digest (digest [1] @ digest [2]) @ digest (digest [3] @ digest [3])))"
  using compute_merkle_root_correct [OF three_txs] unfolding three_slices
  by (simp add: patch_def sha.length_H)

text \<open>
  With no transaction at all the loop leaves nothing to copy: \<^verbatim>\<open>compute_merkle_root\<close> reads
  \<^verbatim>\<open>tree_hashes[0]\<close> of an array without elements, whatever the arguments.
\<close>

lemma compute_merkle_root_empty:
  "compute_merkle_root junk ctx tx_get_size txs off 0 out ooff = Inl OutOfBounds"
  by (simp add: compute_merkle_root_def Let_def merkle_loop.simps)

text \<open>
  C35. The root does not determine the list of transactions: for an odd number of transactions, other than one, a body
  whose last transaction is repeated gets the same root. (A block can be changed this way without changing its
  header.)
\<close>

theorem merkle_root_duplicate:
  assumes "merkle_args junk ctx tx_get_size txs off tx_count out ooff"
    and "merkle_args junk' ctx' tx_get_size' txs' off' (tx_count + 1) out ooff"
    and "odd (unat tx_count)" "tx_count \<noteq> 1"
    and "tx_slices tx_get_size' txs' off' (unat (tx_count + 1)) 0
       = tx_slices tx_get_size txs off (unat tx_count) 0 @ [last (tx_slices tx_get_size txs off (unat tx_count) 0)]"
  shows "compute_merkle_root junk' ctx' tx_get_size' txs' off' (tx_count + 1) out ooff
       = compute_merkle_root junk ctx tx_get_size txs off tx_count out ooff"
proof -
  let ?s = "tx_slices tx_get_size txs off (unat tx_count) 0"
  have "?s \<noteq> []" using assms(3) by (metis length_tx_slices list.size(3) odd_pos less_irrefl)
  then have "map digest (?s @ [last ?s]) = map digest ?s @ [last (map digest ?s)]" by (simp add: last_map)
  moreover have "length (map digest ?s) \<noteq> 1" using assms(4) by (simp add: word_unat_eq_iff)
  ultimately have "merkle_root digest (map digest (?s @ [last ?s])) = merkle_root digest (map digest ?s)"
    using merkle_root_dup [of "map digest ?s" digest] assms(3) by simp
  then show ?thesis
    unfolding compute_merkle_root_eq [OF assms(1)] compute_merkle_root_eq [OF assms(2)] assms(5) by simp
qed

lemma four_txs: "merkle_args (replicate 5 (replicate 32 0)) some_ctx (\<lambda>_ _. 1) [1, 2, 3, 3] 0 (3 + 1) (replicate 32 0) 0"
  unfolding merkle_args_def unat_four by (simp add: some_ctx_def list_all_iff Let_def)

lemma four_slices: "tx_slices (\<lambda>_ _. 1) [1, 2, 3, 3] 0 (unat (3 + 1 :: uint)) 0 = [[1], [2], [3], [3]]"
  unfolding unat_four by (simp add: Let_def segment_def)

theorem merkle_root_duplicate_witness:
  "compute_merkle_root (replicate 5 (replicate 32 0)) some_ctx (\<lambda>_ _. 1) [1, 2, 3, 3] 0 (3 + 1) (replicate 32 0) 0
   = compute_merkle_root (replicate 4 (replicate 32 0)) some_ctx (\<lambda>_ _. 1) [1, 2, 3] 0 3 (replicate 32 0) 0"
proof (rule merkle_root_duplicate [OF three_txs four_txs])
  show "tx_slices (\<lambda>_ _. 1) [1, 2, 3, 3] 0 (unat (3 + 1 :: uint)) 0
      = tx_slices (\<lambda>_ _. 1) [1, 2, 3] 0 (unat (3 :: uint)) 0 @ [last (tx_slices (\<lambda>_ _. 1) [1, 2, 3] 0 (unat (3 :: uint)) 0)]"
    unfolding four_slices three_slices by simp
qed simp_all

text \<open>
  C4. For a fixed number of transactions the root binds them: if two calls write the same root, the two lists of
  transactions are equal, or among the messages that the two calls hash are two different ones with the same hash.
\<close>

theorem merkle_root_binding:
  assumes "merkle_args junk ctx tx_get_size txs off tx_count out ooff"
    and "merkle_args junk' ctx' tx_get_size' txs' off' tx_count out ooff"
    and "compute_merkle_root junk ctx tx_get_size txs off tx_count out ooff
       = compute_merkle_root junk' ctx' tx_get_size' txs' off' tx_count out ooff"
  shows "let s = tx_slices tx_get_size txs off (unat tx_count) 0; s' = tx_slices tx_get_size' txs' off' (unat tx_count) 0
     in s = s' \<or> collision digest (s @ tree_messages digest (map digest s)) (s' @ tree_messages digest (map digest s'))"
proof -
  define s s' where "s = tx_slices tx_get_size txs off (unat tx_count) 0"
    and "s' = tx_slices tx_get_size' txs' off' (unat tx_count) 0"
  let ?H = "map digest s" and ?H' = "map digest s'"
  have n: "s \<noteq> []" "s' \<noteq> []" "length s = length s'"
    using assms(1) by (auto simp: s_def s'_def merkle_args_def word_less_nat_alt dest!: arg_cong [where f = length])
  have l: "length (merkle_root digest ?H) = 32" "length (merkle_root digest ?H') = 32"
    using n by (simp_all add: sha.length_root sha.length_H)
  have "patch out ooff (merkle_root digest ?H) = patch out ooff (merkle_root digest ?H')"
    using assms(3) unfolding compute_merkle_root_eq [OF assms(1)] compute_merkle_root_eq [OF assms(2)]
    by (simp add: s_def s'_def)
  then have "merkle_root digest ?H = merkle_root digest ?H'"
    by (rule patch_inject) (use l assms(1) in \<open>auto simp: merkle_args_def\<close>)
  then have "?H = ?H' \<or> collision digest (tree_messages digest ?H) (tree_messages digest ?H')"
    by (intro sha.root_binding) (auto simp: sha.length_H n(3))
  moreover have "?H = ?H' \<Longrightarrow> s = s' \<or> collision digest s s'"
    by (rule map_eq_collision)
  moreover have "collision digest (tree_messages digest ?H) (tree_messages digest ?H') \<or> collision digest s s'
      \<Longrightarrow> collision digest (s @ tree_messages digest ?H) (s' @ tree_messages digest ?H')"
    by (auto elim!: collision_mono)
  ultimately show ?thesis unfolding Let_def s_def [symmetric] s'_def [symmetric] by blast
qed

theorem merkle_root_binding_witness:
  "let s = [[1], [2], [3]]; s' = [[1], [2], [3]]
   in s = s' \<or> collision digest (s @ tree_messages digest (map digest s)) (s' @ tree_messages digest (map digest s'))"
  using merkle_root_binding [OF three_txs three_txs refl] unfolding three_slices .

end
