(* ===== verification/Blocks.thy ===== *)
theory Blocks
  imports Transactions Merkle
begin

text \<open>
  \<^verbatim>\<open>src/include/blocks.h\<close>, \<^verbatim>\<open>src/src/blocks.c\<close>: serialised blocks.

  In \<^verbatim>\<open>block_update_root\<close> and \<^verbatim>\<open>block_compute_size\<close> the source says \<^verbatim>\<open>dest\<close> for the parameter \<^verbatim>\<open>block\<close>;
  \<^verbatim>\<open>POS_BLOCK_BODY\<close> is \<^verbatim>\<open>SIZE_BLOCK_HEADER\<close>, as the note in \<^verbatim>\<open>shared.h\<close> says. \<^verbatim>\<open>tx_compute_size\<close> and
  \<^verbatim>\<open>tx_get_size\<close> are not in the repository and are arguments, functions of the buffer and the offset of the pointer.
\<close>

subsection \<open>Operations\<close>

definition block_add_header :: "ushort \<Rightarrow> uint \<Rightarrow> uint \<Rightarrow> bytes \<Rightarrow> uchar \<Rightarrow> bytes \<Rightarrow> bytes res" where
  "block_add_header version time height prev_hash target dest =
     rbind (ustob version dest POS_BLOCK_VERSION) (\<lambda>dest.
     rbind (uitob time dest POS_BLOCK_TIME) (\<lambda>dest.
     rbind (uitob height dest POS_BLOCK_HEIGHT) (\<lambda>dest.
     rbind (memcpy dest POS_BLOCK_PREV_HASH prev_hash 0 SIZE_SHA256) (\<lambda>dest.
     rbind (memset dest POS_BLOCK_MERKLE_ROOT 0 SIZE_SHA256) (\<lambda>dest.
     rbind (store dest POS_BLOCK_TARGET target) (\<lambda>dest.
     rbind (uitob 0 dest POS_BLOCK_NONCE) (\<lambda>dest.
     uitob 0 dest POS_BLOCK_TX_COUNT)))))))"

definition block_inc_nonce :: "endian \<Rightarrow> bytes \<Rightarrow> bytes res" where
  "block_inc_nonce e block =
     rbind (btoui e block POS_BLOCK_NONCE) (\<lambda>nonce.
     uitob (nonce + 1) block POS_BLOCK_NONCE)"

text \<open>\<open>junk\<close> gives the areas that \<^verbatim>\<open>compute_merkle_root\<close> allocates for a number of transactions.\<close>

definition block_update_root ::
  "(nat \<Rightarrow> bytes list) \<Rightarrow> sha256_ctx \<Rightarrow> (bytes \<Rightarrow> nat \<Rightarrow> uint) \<Rightarrow> endian \<Rightarrow> bytes \<Rightarrow> bytes res" where
  "block_update_root junk ctx tx_get_size e block =
     rbind (btoui e block POS_BLOCK_TX_COUNT) (\<lambda>tx_count.
     compute_merkle_root (junk (unat tx_count)) ctx tx_get_size block SIZE_BLOCK_HEADER tx_count block POS_BLOCK_MERKLE_ROOT)"

text \<open>
  \<^verbatim>\<open>block_compute_size\<close>: \<^verbatim>\<open>uchar tx_count = &block[POS_BLOCK_TX_COUNT]\<close> takes the address and not the element, so the
  count is the low byte of an address; \<open>base\<close> is the address of the block. First argument of the loop:
  \<^verbatim>\<open>tx_count - i\<close>.
\<close>

primrec block_size_loop :: "nat \<Rightarrow> (bytes \<Rightarrow> nat \<Rightarrow> uint) \<Rightarrow> bytes \<Rightarrow> uint \<Rightarrow> uint" where
  "block_size_loop 0 tx_compute_size block cursor = cursor"
| "block_size_loop (Suc n) tx_compute_size block cursor =
     block_size_loop n tx_compute_size block (cursor + tx_compute_size block (unat cursor))"

definition block_compute_size :: "64 word \<Rightarrow> (bytes \<Rightarrow> nat \<Rightarrow> uint) \<Rightarrow> bytes \<Rightarrow> uint" where
  "block_compute_size base tx_compute_size block =
     (let tx_count = ucast (base + word_of_nat POS_BLOCK_TX_COUNT) :: uchar in
      block_size_loop (unat tx_count) tx_compute_size block (word_of_nat SIZE_BLOCK_HEADER))"

definition block_add_tx ::
  "64 word \<Rightarrow> (bytes \<Rightarrow> nat \<Rightarrow> uint) \<Rightarrow> endian \<Rightarrow> bytes \<Rightarrow> m_tx \<Rightarrow> bytes res" where
  "block_add_tx base tx_compute_size e block tx =
     (let sz = block_compute_size base tx_compute_size block in
      if sz + size_t tx \<ge> MAX_BLOCK_SIZE then Inl (Fatal ''Block overflow during block_add_tx'')
      else
        case data_t tx of
          None \<Rightarrow> Inl NullPointer
        | Some data \<Rightarrow>
            rbind (memcpy block (unat sz) data 0 (unat (size_t tx))) (\<lambda>block.
            rbind (btoui e block POS_BLOCK_TX_COUNT) (\<lambda>tx_count.
            uitob (tx_count + 1) block POS_BLOCK_TX_COUNT)))"

subsection \<open>The header\<close>

definition header_bytes :: "ushort \<Rightarrow> uint \<Rightarrow> uint \<Rightarrow> bytes \<Rightarrow> uchar \<Rightarrow> bytes" where
  "header_bytes version time height prev_hash target =
     enc16 version @ enc32 time @ enc32 height @ take 32 prev_hash @ replicate 32 0 @ [target] @ enc32 0 @ enc32 0"

lemma block_add_header_ok:
  assumes "32 \<le> length prev_hash" "83 \<le> length dest"
  shows "block_add_header version time height prev_hash target dest
    = Inr (patch dest 0 (header_bytes version time height prev_hash target))"
proof -
  have "segment prev_hash 0 32 = take 32 prev_hash" by (simp add: segment_def)
  then show ?thesis
    using assms
    by (simp add: block_add_header_def ustob_ok uitob_ok mem_simps list_update_patch patch_extend header_bytes_def)
qed

lemma length_header_bytes: "32 \<le> length prev_hash \<Longrightarrow> length (header_bytes v t h prev_hash g) = 83"
  by (simp add: header_bytes_def)



subsection \<open>The nonce\<close>

text \<open>The nonce that \<^verbatim>\<open>n\<close> calls of \<^verbatim>\<open>block_inc_nonce\<close> leave, from one that is stored as the big-endian number 0.\<close>

primrec nonce_seq :: "endian \<Rightarrow> nat \<Rightarrow> uint" where
  "nonce_seq e 0 = 0"
| "nonce_seq e (Suc n) = ntohl e (nonce_seq e n) + 1"

primrec inc_nonce_times :: "endian \<Rightarrow> nat \<Rightarrow> bytes \<Rightarrow> bytes res" where
  "inc_nonce_times e 0 block = Inr block"
| "inc_nonce_times e (Suc n) block = rbind (inc_nonce_times e n block) (block_inc_nonce e)"

lemma patch_patch_same: "length xs = length ys \<Longrightarrow> off + length xs \<le> length b \<Longrightarrow> patch (patch b off xs) off ys = patch b off ys"
  by (simp add: patch_def)

lemma block_inc_nonce_ok:
  "83 \<le> length block \<Longrightarrow> block_inc_nonce e (patch block 75 (enc32 a)) = Inr (patch block 75 (enc32 (ntohl e a + 1)))"
  by (simp add: block_inc_nonce_def codec_simps mem_simps patch_patch_same)

lemma inc_nonce_times_eq:
  assumes "83 \<le> length block" "segment block POS_BLOCK_NONCE 4 = enc32 0"
  shows "inc_nonce_times e n block = Inr (patch block 75 (enc32 (nonce_seq e n)))"
proof (induction n)
  case 0
  have "patch block 75 (segment block 75 4) = block" using assms(1) by (intro patch_self) simp
  then show ?case using assms(2) by simp
next
  case (Suc n)
  then show ?case using block_inc_nonce_ok [OF assms(1)] by simp
qed

text \<open>Halves of 32-bit words. The state of the little-endian sequence is a pair of 16-bit counters.\<close>

definition cat16 :: "ushort \<Rightarrow> ushort \<Rightarrow> uint" where
  "cat16 x u = push_bit 16 (ucast x) OR ucast u"

lemma be32_cat16: "be32 a b c d = cat16 (be16 a b) (be16 c d)"
proof (rule bit_word_eqI)
  fix n assume "n < LENGTH(32)"
  then have "n < 32" by simp
  then show "bit (be32 a b c d) n = bit (cat16 (be16 a b) (be16 c d)) n"
    by (cases rule: byte_index_cases)
      (auto simp: bit_be32 cat16_def be16_def bit_simps dest: bit_imp_le_length)
qed

lemma ushort_be16: obtains a b where "(x :: ushort) = be16 a b"
  using be16_bytes [of x] by metis

lemma bswap16_be16: "bswap16 (be16 a b) = be16 b a"
  by (simp add: bswap16_def)

lemma bswap32_cat16: "bswap32 (cat16 x u) = cat16 (bswap16 u) (bswap16 x)"
proof -
  obtain a b c d where "x = be16 a b" "u = be16 c d" by (metis ushort_be16)
  then show ?thesis by (simp add: be32_cat16 [symmetric] bswap32_be32 bswap16_be16)
qed

lemma unat_cat16: "unat (cat16 x u) = 65536 * unat x + unat u"
proof -
  have "push_bit 16 (ucast x) AND (ucast u :: uint) = 0"
    by (rule bit_word_eqI) (auto simp: bit_simps dest: bit_imp_le_length)
  then have "cat16 x u = push_bit 16 (ucast x) + ucast u"
    unfolding cat16_def by (rule disjunctive_add_eq_or [symmetric])
  moreover have "unat x < 65536" "unat u < 65536" using unsigned_less [of x] unsigned_less [of u] by simp_all
  ultimately show ?thesis
    by (simp add: unat_word_ariths push_bit_eq_mult unsigned_ucast_eq take_bit_eq_mod)
qed

lemma cat16_inject: "cat16 x u = cat16 y v \<longleftrightarrow> x = y \<and> u = v"
proof -
  have "unat u < 65536" "unat v < 65536" using unsigned_less [of u] unsigned_less [of v] by simp_all
  then have "unat x = unat y \<and> unat u = unat v" if "65536 * unat x + unat u = 65536 * unat y + unat v"
  proof -
    have "(65536 * unat x + unat u) mod 65536 = unat u" "(65536 * unat y + unat v) mod 65536 = unat v"
      using \<open>unat u < 65536\<close> \<open>unat v < 65536\<close> by simp_all
    with that show ?thesis by simp
  qed
  then show ?thesis by (auto simp: word_unat_eq_iff unat_cat16)
qed

lemma cat16_Suc: "u \<noteq> 0xFFFF \<Longrightarrow> cat16 x u + 1 = cat16 x (u + 1)"
proof -
  assume "u \<noteq> 0xFFFF"
  moreover have "unat u < 65536" "unat x < 65536" using unsigned_less [of u] unsigned_less [of x] by simp_all
  ultimately have "unat u + 1 < 65536" by (simp add: word_unat_eq_iff)
  with \<open>unat x < 65536\<close> show ?thesis
    by (simp add: word_unat_eq_iff unat_cat16 unat_word_ariths)
qed

definition pair_nonce :: "ushort \<Rightarrow> ushort \<Rightarrow> uint" where
  "pair_nonce u v = cat16 (bswap16 u) v"

lemma pair_nonce_step: "u \<noteq> 0xFFFF \<Longrightarrow> bswap32 (pair_nonce u v) + 1 = pair_nonce v (u + 1)"
  by (simp add: pair_nonce_def bswap32_cat16 cat16_Suc)

lemma pair_nonce_inject: "pair_nonce u v = pair_nonce u' v' \<longleftrightarrow> u = u' \<and> v = v'"
  unfolding pair_nonce_def cat16_inject by (metis bswap16_bswap16)

lemma of_nat_ushort_not_max: "k < 65535 \<Longrightarrow> (word_of_nat k :: ushort) \<noteq> 0xFFFF"
  by (simp add: word_unat_eq_iff unat_of_nat take_bit_eq_mod)

lemma nonce_seq_little:
  "k \<le> 65535 \<Longrightarrow> nonce_seq Little (2 * k) = pair_nonce (word_of_nat k) (word_of_nat k)"
proof (induction k)
  case 0
  show ?case by (simp add: pair_nonce_def cat16_def bswap16_def be16_def)
next
  case (Suc k)
  then have k: "(word_of_nat k :: ushort) \<noteq> 0xFFFF" by (intro of_nat_ushort_not_max) simp
  have "nonce_seq Little (2 * Suc k) = bswap32 (bswap32 (pair_nonce (word_of_nat k) (word_of_nat k)) + 1) + 1"
    using Suc by simp
  also have "\<dots> = pair_nonce (word_of_nat k + 1) (word_of_nat k + 1)"
    using pair_nonce_step [OF k] by simp
  finally show ?case by (simp add: add.commute)
qed

lemma nonce_seq_little_odd:
  "k < 65535 \<Longrightarrow> nonce_seq Little (2 * k + 1) = pair_nonce (word_of_nat k) (word_of_nat k + 1)"
  using nonce_seq_little [of k] pair_nonce_step [OF of_nat_ushort_not_max, of k "word_of_nat k"] by simp

lemma nonce_seq_wrap: "nonce_seq Little 131071 = 0"
proof -
  have "nonce_seq Little (2 * 65535) = pair_nonce 0xFFFF 0xFFFF" using nonce_seq_little [of 65535] by simp
  moreover have "bswap32 (pair_nonce 0xFFFF 0xFFFF) + 1 = 0"
    by (simp add: pair_nonce_def bswap32_def be32_def bswap16_def be16_def cat16_def)
  moreover have "nonce_seq Little (Suc (2 * 65535)) = bswap32 (nonce_seq Little (2 * 65535)) + 1"
    by (simp only: nonce_seq.simps ntohl.simps)
  moreover have "Suc (2 * 65535) = (131071 :: nat)" by simp
  ultimately show ?thesis by metis
qed

lemma nonce_seq_periodic: "nonce_seq Little (n + 131071) = nonce_seq Little n"
proof (induction n)
  case (Suc n)
  then show ?case by (metis add_Suc nonce_seq.simps(2))
qed (simp only: add_0 nonce_seq_wrap nonce_seq.simps(1))

lemma periodic_mod:
  fixes f :: "nat \<Rightarrow> 'a"
  assumes "\<And>n. f (n + p) = f n"
  shows "f n = f (n mod p)"
proof -
  have "f (m + k * p) = f m" for m k
  proof (induction k)
    case (Suc k)
    have "f (m + Suc k * p) = f ((m + k * p) + p)" by (simp add: ac_simps)
    then show ?case using assms Suc by simp
  qed simp
  then show ?thesis by (metis mod_mult_div_eq add.commute mult.commute)
qed

lemma nonce_seq_mod: "nonce_seq Little n = nonce_seq Little (n mod 131071)"
  by (rule periodic_mod) (rule nonce_seq_periodic)

lemma nonce_seq_cases:
  assumes "n < 131071"
  shows "nonce_seq Little n = pair_nonce (word_of_nat (n div 2)) (word_of_nat (n div 2) + word_of_nat (n mod 2))"
proof (cases "even n")
  case True
  then have "nonce_seq Little (2 * (n div 2)) = pair_nonce (word_of_nat (n div 2)) (word_of_nat (n div 2))"
    using assms by (intro nonce_seq_little) simp
  then show ?thesis using True by simp
next
  case False
  then have "nonce_seq Little (2 * (n div 2) + 1) = pair_nonce (word_of_nat (n div 2)) (word_of_nat (n div 2) + 1)"
    using assms by (intro nonce_seq_little_odd) (auto elim!: oddE)
  then show ?thesis using False by (simp add: odd_iff_mod_2_eq_one)
qed

lemma of_nat_ushort_inject: "i < 65536 \<Longrightarrow> j < 65536 \<Longrightarrow> (word_of_nat i :: ushort) = word_of_nat j \<longleftrightarrow> i = j"
  by (simp add: word_unat_eq_iff unat_of_nat take_bit_eq_mod)

lemma nonce_seq_inj: "inj_on (nonce_seq Little) {..<131071}"
proof (rule inj_onI)
  fix m n assume mn: "m \<in> {..<131071 :: nat}" "n \<in> {..<131071 :: nat}" "nonce_seq Little m = nonce_seq Little n"
  then have "(word_of_nat (m div 2) :: ushort) = word_of_nat (n div 2)"
    "(word_of_nat (m mod 2) :: ushort) = word_of_nat (n mod 2)"
    by (auto simp: nonce_seq_cases pair_nonce_inject)
  moreover have "m div 2 < 65536" "n div 2 < 65536" "m mod 2 < 65536" "n mod 2 < 65536"
    using mn by auto
  ultimately have "m div 2 = n div 2" "m mod 2 = n mod 2" by (simp_all add: of_nat_ushort_inject)
  then show "m = n" by (metis div_mult_mod_eq)
qed

lemma range_nonce_seq_little: "range (nonce_seq Little) = nonce_seq Little ` {..<131071}"
proof
  show "range (nonce_seq Little) \<subseteq> nonce_seq Little ` {..<131071}"
  proof
    fix x assume "x \<in> range (nonce_seq Little)"
    then obtain n where "x = nonce_seq Little (n mod 131071)" using nonce_seq_mod by auto
    then show "x \<in> nonce_seq Little ` {..<131071}" by simp
  qed
qed auto

lemma nonce_seq_big: "nonce_seq Big n = word_of_nat n"
  by (induction n) simp_all

lemma range_nonce_seq_big: "range (nonce_seq Big) = UNIV"
proof -
  have "x \<in> range word_of_nat" for x :: uint by (rule range_eqI [of _ _ "unat x"]) simp
  then show ?thesis unfolding nonce_seq_big by auto
qed

text \<open>The four bytes that are tried as nonce from a block on, over any number of increments.\<close>

definition nonces :: "endian \<Rightarrow> bytes \<Rightarrow> bytes set" where
  "nonces e block = {x. \<exists>n b. inc_nonce_times e n block = Inr b \<and> x = segment b POS_BLOCK_NONCE 4}"

lemma nonces_eq:
  assumes "83 \<le> length block" "segment block POS_BLOCK_NONCE 4 = enc32 0"
  shows "nonces e block = enc32 ` range (nonce_seq e)"
proof -
  have "segment (patch block 75 (enc32 x)) 75 4 = enc32 x" for x
    using assms(1) by (simp add: segment_patch_same)
  then show ?thesis
    unfolding nonces_def inc_nonce_times_eq [OF assms] by auto
qed

lemma inj_enc32: "inj enc32"
  by (rule inj_on_inverseI [of _ dec32]) simp

lemma card_nonces:
  assumes "83 \<le> length block" "segment block POS_BLOCK_NONCE 4 = enc32 0"
  shows "card (nonces e block) = card (range (nonce_seq e))"
  unfolding nonces_eq [OF assms] by (rule card_image) (rule inj_on_subset [OF inj_enc32 subset_UNIV])

text \<open>
  C18. The search space of the miner. From the zero nonce that \<^verbatim>\<open>block_add_header\<close> writes, repeated
  \<^verbatim>\<open>block_inc_nonce\<close> never fails and on a big-endian host visits all \<open>2\<^sup>3\<^sup>2\<close> nonces; on a little-endian host, because
  \<^verbatim>\<open>btoui\<close> swaps the bytes and \<^verbatim>\<open>uitob\<close> does not swap them back, it runs in a cycle of exactly 131071 of
  them.
\<close>

theorem nonce_search_space:
  assumes "SIZE_BLOCK_HEADER \<le> length block" "segment block POS_BLOCK_NONCE 4 = enc32 0"
  shows "(\<forall>n. \<exists>b. inc_nonce_times e n block = Inr b)
    \<and> card (nonces Big block) = 2 ^ 32 \<and> card (nonces Little block) = 131071"
proof -
  have "card (range (nonce_seq Big)) = 2 ^ 32" unfolding range_nonce_seq_big by (simp add: card_word)
  moreover have "card (range (nonce_seq Little)) = 131071"
    unfolding range_nonce_seq_little by (simp only: card_image [OF nonce_seq_inj] card_lessThan)
  ultimately show ?thesis
    using inc_nonce_times_eq [OF assms] card_nonces [OF assms] by simp
qed

theorem nonce_search_space_witness:
  "card (nonces Big (replicate 83 0)) = 2 ^ 32 \<and> card (nonces Little (replicate 83 0)) = 131071"
proof -
  have "segment (replicate 83 0) 75 4 = enc32 0" by (simp add: segment_def enc32_def numeral_eq_Suc)
  then show ?thesis using nonce_search_space [of "replicate 83 0"] by simp
qed

subsection \<open>Size and transactions\<close>

lemma block_compute_size_low_byte_0:
  "(ucast (base + 79) :: uchar) = 0 \<Longrightarrow> block_compute_size base f block = 83"
  by (simp add: block_compute_size_def)

lemma block_add_tx_at_83:
  assumes "(ucast (base + 79) :: uchar) = 0" "data_t tx = Some d" "unat (size_t tx) = length d"
    and "83 + length d < 1048576" "83 + length d \<le> length block"
  shows "\<exists>n. block_add_tx base f e block tx = Inr (patch (patch block 83 d) 79 (enc32 (n + 1)))
      \<and> btoui e block 79 = Inr n"
proof -
  have "unat (83 + size_t tx) = 83 + length d" using assms(3,4) by (simp add: unat_word_ariths)
  then have nov: "\<not> 83 + size_t tx \<ge> MAX_BLOCK_SIZE" using assms(4) by (simp add: word_le_nat_alt)
  have "btoui e (patch block 83 d) 79 = btoui e block 79"
    using assms(5) by (intro u32.get_patched_elsewhere) simp_all
  moreover obtain n where "btoui e block 79 = Inr n" using assms(5) by (simp add: btoui_ok)
  moreover have "segment d 0 (length d) = d" by (simp add: segment_def)
  ultimately show ?thesis
    using assms nov
    by (simp add: block_add_tx_def Let_def block_compute_size_low_byte_0 mem_simps uitob_ok)
qed

text \<open>
  \<^verbatim>\<open>block_compute_size\<close> takes the number of transactions from the address of the field and not from the field. For a
  block at an address where that byte is 0, two calls of \<^verbatim>\<open>block_add_tx\<close> put the second transaction on top of the first: both
  start at the end of the header, while the stored count goes up by two.
\<close>

lemma block_add_tx_overwrites:
  assumes "(ucast (base + word_of_nat POS_BLOCK_TX_COUNT) :: uchar) = 0"
    and "data_t tx1 = Some d1" "unat (size_t tx1) = length d1" "data_t tx2 = Some d2" "unat (size_t tx2) = length d2"
    and "length block = unat MAX_BLOCK_SIZE" "83 + length d1 < length block" "83 + length d2 < length block"
    and "btoui Big block POS_BLOCK_TX_COUNT = Inr n"
  shows "\<exists>b1 b2. block_add_tx base tx_compute_size Big block tx1 = Inr b1
    \<and> block_add_tx base tx_compute_size Big b1 tx2 = Inr b2
    \<and> segment b1 SIZE_BLOCK_HEADER (length d1) = d1 \<and> segment b2 SIZE_BLOCK_HEADER (length d2) = d2
    \<and> btoui Big b2 POS_BLOCK_TX_COUNT = Inr (n + 2)"
proof -
  have a: "(ucast (base + 79) :: uchar) = 0" using assms(1) by simp
  have seg: "segment (patch (patch b 83 d) 79 (enc32 m)) 83 (length d) = d" if "83 + length d \<le> length b" for b d m
    using that by (simp add: mem_simps)
  define b1 where "b1 = patch (patch block 83 d1) 79 (enc32 (n + 1))"
  have 1: "block_add_tx base tx_compute_size Big block tx1 = Inr b1" "length b1 = length block"
    using block_add_tx_at_83 [OF a assms(2,3), of block tx_compute_size Big] assms(6-9) by (auto simp: b1_def mem_simps)
  have "btoui Big b1 79 = Inr (n + 1)"
    using u32.get_patched_field [of 79 "patch block 83 d1" Big "n + 1"] assms(6,7) by (simp add: b1_def mem_simps)
  then have 2: "block_add_tx base tx_compute_size Big b1 tx2 = Inr (patch (patch b1 83 d2) 79 (enc32 (n + 1 + 1)))"
    using block_add_tx_at_83 [OF a assms(4,5), of b1 tx_compute_size Big] assms(6-8) 1(2) by auto
  have "btoui Big (patch (patch b1 83 d2) 79 (enc32 (n + 1 + 1))) 79 = Inr (n + 1 + 1)"
    using u32.get_patched_field [of 79 "patch b1 83 d2" Big "n + 1 + 1"] assms(6,8) 1(2) by (simp add: mem_simps)
  then show ?thesis
    using 1 2 seg [of d1 block "n + 1"] seg [of d2 b1 "n + 1 + 1"] assms(7,8) by (simp add: b1_def add.assoc)
qed

lemma btoui_zeros: "off + 4 \<le> n \<Longrightarrow> btoui Big (replicate n 0) off = Inr 0"
  by (simp add: btoui_ok segment_def dec32_def be32_def)

definition one_byte_tx :: "uchar \<Rightarrow> m_tx" where
  "one_byte_tx b = \<lparr>hash_t = None, data_t = Some [b], size_t = 1, max_t = 1\<rparr>"

lemma block_add_tx_overwrites_witness:
  "\<exists>b1 b2. block_add_tx 177 (\<lambda>_ _. 1) Big (replicate 1048576 0) (one_byte_tx 5) = Inr b1
    \<and> block_add_tx 177 (\<lambda>_ _. 1) Big b1 (one_byte_tx 6) = Inr b2
    \<and> segment b1 SIZE_BLOCK_HEADER (length [5 :: uchar]) = [5] \<and> segment b2 SIZE_BLOCK_HEADER (length [6 :: uchar]) = [6]
    \<and> btoui Big b2 POS_BLOCK_TX_COUNT = Inr (0 + 2)"
  by (rule block_add_tx_overwrites) (simp_all add: one_byte_tx_def btoui_zeros)

text \<open>
  C27. \<^verbatim>\<open>block_update_root\<close> on a big-endian host, on a block whose count field holds the positive number of its
  transactions, stores in the Merkle root field the root of the hash tree over exactly these transactions and
  changes nothing else; a count of zero makes it fault.
\<close>

theorem block_update_root_correct:
  assumes "segment block POS_BLOCK_TX_COUNT 4 = enc32 tx_count" "SIZE_BLOCK_HEADER \<le> length block"
    and "txs_fit tx_get_size block SIZE_BLOCK_HEADER (unat tx_count) 0"
    and "\<forall>n. length (junk n) = n + 1 \<and> list_all (\<lambda>a. length a = 32) (junk n)" "length (data_c ctx) = 64"
  shows "block_update_root junk ctx tx_get_size Big block =
    (if tx_count = 0 then Inl OutOfBounds
     else Inr (patch block POS_BLOCK_MERKLE_ROOT
       (merkle_root digest (map digest (tx_slices tx_get_size block SIZE_BLOCK_HEADER (unat tx_count) 0)))))"
proof -
  have c: "btoui Big block 79 = Inr tx_count" using assms(1,2) by (simp add: btoui_ok)
  show ?thesis
  proof (cases "tx_count = 0")
    case True
    then show ?thesis by (simp add: block_update_root_def c compute_merkle_root_def Let_def merkle_loop.simps)
  next
    case False
    then have "merkle_args (junk (unat tx_count)) ctx tx_get_size block 83 tx_count block 42"
      using assms by (simp add: merkle_args_def word_neq_0_conv)
    then show ?thesis using False by (simp add: block_update_root_def c compute_merkle_root_eq)
  qed
qed

theorem block_update_root_correct_witness:
  "block_update_root (\<lambda>n. replicate (n + 1) (replicate 32 0)) some_ctx (\<lambda>_ _. 1) Big (replicate 79 0 @ [0, 0, 0, 1, 9])
   = Inr (patch (replicate 79 0 @ [0, 0, 0, 1, 9]) POS_BLOCK_MERKLE_ROOT (digest [9]))"
proof -
  have c: "segment (replicate 79 0 @ [0, 0, 0, 1, 9]) 79 4 = enc32 1" by (simp add: mem_simps segment_def enc32_def)
  have u: "unat (1 :: uint) = Suc 0" by simp
  have t: "tx_slices (\<lambda>_ _. 1) (replicate 79 0 @ [0, 0, 0, 1, 9]) 83 (unat (1 :: uint)) 0 = [[9]]"
    unfolding u by (simp add: segment_def)
  show ?thesis
    using block_update_root_correct [OF c, of "\<lambda>_ _. 1" "\<lambda>n. replicate (n + 1) (replicate 32 0)" some_ctx]
    unfolding t by (simp add: list_all_iff some_ctx_def)
qed

end
