(* ===== verification/Data.thy ===== *)
theory Data
  imports Blocks Arrays
begin

text \<open>
  \<^verbatim>\<open>src/include/data.h\<close>, \<^verbatim>\<open>src/src/data.c\<close>: the databases and the pool of pending transactions.

  Berkeley DB is a library outside the repository: a database is a value of an arbitrary type, and the library's
  operations are the fields of a record \<open>bdb\<close> that the definitions take as an argument. What the code may rely on, the
  documented behaviour, is the predicate \<open>bdb_documented\<close>: keys and values are the first \<^verbatim>\<open>size\<close> bytes of their
  \<^verbatim>\<open>DBT\<close>, whatever its \<^verbatim>\<open>ulen\<close>; a \<^verbatim>\<open>get\<close> into user memory copies the stored bytes if they fit into \<^verbatim>\<open>ulen\<close>.

  Functions that are called but not defined anywhere (\<^verbatim>\<open>tx_compute_size\<close>, \<^verbatim>\<open>block_compute_hash\<close>,
  \<^verbatim>\<open>block_get_height\<close>, ...) are the fields of a second record \<open>ext\<close>; such a function gets the memory from its pointer
  argument on. Mutexes are left out: the functions here never lock, their callers do. Messages that are only printed are left out.
\<close>

subsection \<open>\<^verbatim>\<open>DBT\<close>s and the library\<close>

text \<open>The flags \<^verbatim>\<open>DB_DBT_USERMEM\<close> and \<^verbatim>\<open>DB_DBT_PARTIAL\<close> are two fields of their own.\<close>

record dbt =
  usermem :: bool
  partial_d :: bool
  data_d :: bytes
  size_d :: uint
  ulen_d :: uint
  dlen_d :: uint
  doff_d :: uint

definition new_dbt :: "bytes \<Rightarrow> uint \<Rightarrow> dbt" where
  "new_dbt data sz =
     \<lparr>usermem = True, partial_d = False, data_d = data, size_d = 0, ulen_d = sz, dlen_d = 0, doff_d = 0\<rparr>"

definition new_pdbt :: "bytes \<Rightarrow> uint \<Rightarrow> uint \<Rightarrow> dbt" where
  "new_pdbt data psize pstart = (new_dbt data 0)\<lparr>partial_d := True, doff_d := pstart, dlen_d := psize\<rparr>"

text \<open>
  The library: \<^verbatim>\<open>put\<close> and \<^verbatim>\<open>exists\<close> with their return codes, \<^verbatim>\<open>get\<close> with its return code and the data \<^verbatim>\<open>DBT\<close>
  afterwards, and a cursor: the code of its creation and the data that \<^verbatim>\<open>DB_NEXT\<close> delivers until it
  fails.
\<close>

record 'd bdb =
  b_put :: "'d \<Rightarrow> dbt \<Rightarrow> dbt \<Rightarrow> int \<times> 'd"
  b_get :: "'d \<Rightarrow> dbt \<Rightarrow> dbt \<Rightarrow> int \<times> dbt"
  b_exists :: "'d \<Rightarrow> dbt \<Rightarrow> int"
  b_scan :: "'d \<Rightarrow> int \<times> bytes list"

definition dbt_bytes :: "dbt \<Rightarrow> bytes" where
  "dbt_bytes t = take (unat (size_d t)) (data_d t)"

text \<open>
  Part of the documented behaviour. A \<^verbatim>\<open>get\<close> asks for the whole value, or with \<^verbatim>\<open>DB_DBT_PARTIAL\<close> for the
  \<^verbatim>\<open>dlen\<close> bytes from \<^verbatim>\<open>doff\<close> on; after a successful \<^verbatim>\<open>put\<close>, for every key \<^verbatim>\<open>DBT\<close> with the same bytes, the key exists and what is asked for is
  copied to the user's memory if it is at most \<^verbatim>\<open>ulen\<close> bytes long; otherwise the code is not 0 and the memory is left as it was.
\<close>

definition requested :: "dbt \<Rightarrow> bytes \<Rightarrow> bytes" where
  "requested dat v = (if partial_d dat then take (unat (dlen_d dat)) (drop (unat (doff_d dat)) v) else v)"

definition got :: "dbt \<Rightarrow> bytes \<Rightarrow> int \<times> dbt \<Rightarrow> bool" where
  "got dat v r \<longleftrightarrow>
     (if length (requested dat v) \<le> unat (ulen_d dat)
      then r = (0, dat\<lparr>data_d := patch (data_d dat) 0 (requested dat v), size_d := word_of_nat (length (requested dat v))\<rparr>)
      else fst r \<noteq> 0 \<and> data_d (snd r) = data_d dat)"

definition bdb_documented :: "'d bdb \<Rightarrow> bool" where
  "bdb_documented B \<longleftrightarrow> (\<forall>db k v db' k' dat. b_put B db k v = (0, db') \<and> dbt_bytes k' = dbt_bytes k \<longrightarrow>
     b_exists B db' k' = 0 \<and> (usermem dat \<longrightarrow> got dat (dbt_bytes v) (b_get B db' k' dat)))"

definition db_put :: "'d bdb \<Rightarrow> 'd \<Rightarrow> dbt \<Rightarrow> dbt \<Rightarrow> int \<times> 'd" where
  "db_put B db key dat = b_put B db key dat"

definition db_get :: "'d bdb \<Rightarrow> 'd \<Rightarrow> dbt \<Rightarrow> dbt \<Rightarrow> int \<times> dbt" where
  "db_get B db key dat = b_get B db key dat"

definition db_exists :: "'d bdb \<Rightarrow> 'd \<Rightarrow> dbt \<Rightarrow> int" where
  "db_exists B db key = b_exists B db key"

subsection \<open>State\<close>

record mempool =
  slots :: "m_tx option list"
  count_m :: uint

record 'd dbs =
  blocks_db :: 'd
  chain_db :: 'd
  limbo_db :: 'd
  txs_db :: 'd
  nodes_db :: 'd
  mempool_d :: mempool

record ext =
  tx_compute_size :: "bytes \<Rightarrow> uint"
  tx_get_size :: "bytes \<Rightarrow> uint"
  tx_compute_hash :: "bytes \<Rightarrow> bytes"
  block_compute_hash :: "bytes \<Rightarrow> bytes"
  block_get_height :: "bytes \<Rightarrow> uint"
  block_get_tx_count :: "bytes \<Rightarrow> uint"
  bytes_to_uint :: "bytes \<Rightarrow> uint"

text \<open>
  \<^verbatim>\<open>m_db_init\<close> with the results of \<^verbatim>\<open>db_create\<close> and of \<^verbatim>\<open>db_open\<close> (a code and the open database) for a path;
  \<^verbatim>\<open>m_dbs_init\<close> with the contents of the slots as allocated.
\<close>

definition m_db_init :: "(string \<Rightarrow> int) \<Rightarrow> (string \<Rightarrow> int \<times> 'd) \<Rightarrow> string \<Rightarrow> 'd res" where
  "m_db_init db_create db_open path =
     (if db_create path \<noteq> 0 then Inl (Fatal (''Failed to create database handler: '' @ path))
      else case db_open path of (ret, db) \<Rightarrow>
        if ret \<noteq> 0 then Inl (Fatal (''Failed to open database: '' @ path)) else Inr db)"

definition m_dbs_init ::
  "(string \<Rightarrow> int) \<Rightarrow> (string \<Rightarrow> int \<times> 'd) \<Rightarrow> string \<Rightarrow> string \<Rightarrow> string \<Rightarrow> string \<Rightarrow> string
   \<Rightarrow> m_tx option list \<Rightarrow> 'd dbs res" where
  "m_dbs_init db_create db_open PATH_DATA_BLOCKS PATH_DATA_CHAIN PATH_DATA_LIMBO PATH_DATA_TXS PATH_DATA_NODES junk =
     rbind (m_db_init db_create db_open PATH_DATA_BLOCKS) (\<lambda>blocks.
     rbind (m_db_init db_create db_open PATH_DATA_CHAIN) (\<lambda>chain.
     rbind (m_db_init db_create db_open PATH_DATA_LIMBO) (\<lambda>limbo.
     rbind (m_db_init db_create db_open PATH_DATA_TXS) (\<lambda>txs.
     rbind (m_db_init db_create db_open PATH_DATA_NODES) (\<lambda>nodes.
     Inr \<lparr>blocks_db = blocks, chain_db = chain, limbo_db = limbo, txs_db = txs, nodes_db = nodes,
          mempool_d = \<lparr>slots = take TX_COUNT_SOFT_LIMIT junk, count_m = 0\<rparr>\<rparr>)))))"

text \<open>
  \<^verbatim>\<open>m_db_die\<close> and \<^verbatim>\<open>dbs_die\<close>: the databases they close, in order; a null pointer is left alone. Both assign
  \<^verbatim>\<open>NULL\<close> to their own copy of the pointer only.
\<close>

definition m_db_die :: "'d option \<Rightarrow> 'd list" where
  "m_db_die db = (case db of None \<Rightarrow> [] | Some d \<Rightarrow> [d])"

definition dbs_die :: "'d dbs \<Rightarrow> 'd list" where
  "dbs_die dbs = m_db_die (Some (blocks_db dbs)) @ m_db_die (Some (chain_db dbs)) @ m_db_die (Some (limbo_db dbs))
     @ m_db_die (Some (txs_db dbs)) @ m_db_die (Some (nodes_db dbs))"

subsection \<open>Blocks and transactions\<close>

definition data_txs_add :: "'d bdb \<Rightarrow> 'd dbs \<Rightarrow> bytes \<Rightarrow> bytes \<Rightarrow> 'd dbs" where
  "data_txs_add B dbs tx_hash block_hash =
     (let key = new_dbt tx_hash (word_of_nat SIZE_SHA256);
          dat = new_dbt block_hash (word_of_nat SIZE_SHA256);
          (ret, db) = db_put B (txs_db dbs) key dat
      in dbs\<lparr>txs_db := db\<rparr>)"

text \<open>The loop of \<^verbatim>\<open>data_blocks_add\<close> over the transactions, first argument \<^verbatim>\<open>tx_count - i\<close>.\<close>

primrec add_txs_loop :: "nat \<Rightarrow> 'd bdb \<Rightarrow> ext \<Rightarrow> 'd dbs \<Rightarrow> bytes \<Rightarrow> bytes \<Rightarrow> uint \<Rightarrow> 'd dbs" where
  "add_txs_loop 0 B X dbs block block_hash cursor = dbs"
| "add_txs_loop (Suc n) B X dbs block block_hash cursor =
     (let tx = drop (unat cursor) block;
          dbs = data_txs_add B dbs (tx_compute_hash X tx) block_hash
      in add_txs_loop n B X dbs block block_hash (cursor + tx_get_size X tx))"

text \<open>\<open>base\<close> is the address of \<^verbatim>\<open>block\<close>, on which \<^verbatim>\<open>block_compute_size\<close> depends.\<close>

definition data_blocks_add :: "64 word \<Rightarrow> 'd bdb \<Rightarrow> ext \<Rightarrow> 'd dbs \<Rightarrow> bytes \<Rightarrow> 'd dbs" where
  "data_blocks_add base B X dbs block =
     (let block_hash = block_compute_hash X block;
          tx_count = block_get_tx_count X block;
          dbs = add_txs_loop (unat tx_count) B X dbs block block_hash (word_of_nat SIZE_BLOCK_HEADER);
          key = new_dbt block_hash (word_of_nat SIZE_SHA256);
          dat = new_dbt block (block_compute_size base (\<lambda>b off. tx_compute_size X (drop off b)) block);
          (ret, db) = db_put B (blocks_db dbs) key dat
      in dbs\<lparr>blocks_db := db\<rparr>)"

definition data_blocks_get :: "'d bdb \<Rightarrow> 'd dbs \<Rightarrow> bytes \<Rightarrow> bytes \<Rightarrow> int \<times> bytes" where
  "data_blocks_get B dbs hash dest =
     (let key = new_dbt hash (word_of_nat SIZE_SHA256);
          dat = new_dbt dest MAX_BLOCK_SIZE;
          (ret, dat) = db_get B (blocks_db dbs) key dat
      in (ret, data_d dat))"

definition data_blocks_get_header :: "'d bdb \<Rightarrow> 'd dbs \<Rightarrow> bytes \<Rightarrow> bytes \<Rightarrow> int \<times> bytes" where
  "data_blocks_get_header B dbs hash dest =
     (let key = new_dbt hash (word_of_nat SIZE_SHA256);
          dat = new_pdbt dest (word_of_nat SIZE_BLOCK_HEADER) 0;
          (ret, dat) = db_get B (blocks_db dbs) key dat
      in (ret, data_d dat))"

definition data_blocks_exists :: "'d bdb \<Rightarrow> 'd dbs \<Rightarrow> bytes \<Rightarrow> int" where
  "data_blocks_exists B dbs hash =
     (let key = new_dbt hash (word_of_nat SIZE_SHA256);
          ret = db_exists B (blocks_db dbs) key
      in if ret = 0 then 1 else 0)"

definition data_txs_exists :: "'d bdb \<Rightarrow> 'd dbs \<Rightarrow> bytes \<Rightarrow> int" where
  "data_txs_exists B dbs hash =
     (let key = new_dbt hash (word_of_nat SIZE_SHA256);
          ret = db_exists B (txs_db dbs) key
      in if ret = 0 then 1 else 0)"

subsection \<open>The chain\<close>

definition data_chain_get :: "endian \<Rightarrow> 'd bdb \<Rightarrow> 'd dbs \<Rightarrow> uint \<Rightarrow> bytes \<Rightarrow> int \<times> bytes" where
  "data_chain_get e B dbs height dest =
     (let key = new_dbt (host_bytes e height) 4;
          dat = new_dbt dest (word_of_nat SIZE_SHA256);
          (ret, dat) = db_get B (chain_db dbs) key dat
      in (ret, data_d dat))"

text \<open>\<open>junk\<close> is the contents of \<^verbatim>\<open>buffer\<close> as allocated.\<close>

definition data_chain_exists :: "endian \<Rightarrow> bytes \<Rightarrow> 'd bdb \<Rightarrow> 'd dbs \<Rightarrow> uint \<Rightarrow> bytes \<Rightarrow> int res" where
  "data_chain_exists e junk B dbs height hash =
     (case data_chain_get e B dbs height junk of (ret, buf) \<Rightarrow>
        if ret \<noteq> 0 then Inr 0
        else
          rbind (mem_read buf 0 SIZE_SHA256) (\<lambda>x.
          rbind (mem_read hash 0 SIZE_SHA256) (\<lambda>y.
          Inr (if x = y then 1 else 0))))"

text \<open>\<^verbatim>\<open>db_set\<close> is not a function of the library or the repository; its effect is an argument.\<close>

definition data_chain_safe_set ::
  "('d \<Rightarrow> dbt \<Rightarrow> dbt \<Rightarrow> int \<times> 'd) \<Rightarrow> endian \<Rightarrow> bytes \<Rightarrow> 'd bdb \<Rightarrow> ext \<Rightarrow> 'd dbs \<Rightarrow> bytes \<Rightarrow> 'd dbs" where
  "data_chain_safe_set db_set e junk B X dbs block_hash =
     (case data_blocks_get_header B dbs block_hash junk of (ret, block) \<Rightarrow>
        if ret \<noteq> 0 then dbs
        else
          let key = new_dbt block_hash (word_of_nat SIZE_SHA256);
              dat = new_dbt (host_bytes e (block_get_height X block)) 4;
              (ret, db) = db_set (chain_db dbs) key dat
          in dbs\<lparr>chain_db := db\<rparr>)"

definition data_chain_set :: "'d dbs \<Rightarrow> uint \<Rightarrow> bytes \<Rightarrow> 'd dbs res" where
  "data_chain_set dbs height hash = Inl (Fatal ''use data_chain_safe_set'')"

text \<open>The cursor loop, on the data it delivers; \<^verbatim>\<open>highest\<close> starts as whatever the stack holds.\<close>

primrec highest_loop :: "ext \<Rightarrow> bytes list \<Rightarrow> uint \<Rightarrow> uint" where
  "highest_loop X [] highest = highest"
| "highest_loop X (dat # dats) highest =
     (let cur = block_get_height X dat in
      highest_loop X dats (if cur > highest then cur else highest))"

definition data_VAR_get_height :: "uint \<Rightarrow> 'd bdb \<Rightarrow> ext \<Rightarrow> 'd \<Rightarrow> uint res" where
  "data_VAR_get_height junk_highest B X db =
     (case b_scan B db of (ret, dats) \<Rightarrow>
        if ret \<noteq> 0 then Inl (Fatal ''failed to init cursor in _data_VAR_get_height'')
        else Inr (highest_loop X dats junk_highest))"

definition data_chain_get_height :: "uint \<Rightarrow> 'd bdb \<Rightarrow> ext \<Rightarrow> 'd dbs \<Rightarrow> uint res" where
  "data_chain_get_height junk_highest B X dbs = data_VAR_get_height junk_highest B X (chain_db dbs)"

definition data_limbo_get_height :: "uint \<Rightarrow> 'd bdb \<Rightarrow> ext \<Rightarrow> 'd dbs \<Rightarrow> uint res" where
  "data_limbo_get_height junk_highest B X dbs = data_VAR_get_height junk_highest B X (limbo_db dbs)"

subsection \<open>Limbo\<close>

text \<open>
  \<^verbatim>\<open>data_limbo_safe_add\<close> and \<^verbatim>\<open>data_limbo_del\<close> differ in the array operation only. The key is
  \<^verbatim>\<open>new_dbt(height, sizeof(uint))\<close>, the height used as a pointer; with \<^verbatim>\<open>size\<close> 0 nothing is read there, so the memory
  is left empty. \<open>LIMBO_MAX_LEVEL_SIZE\<close> is not defined in the repository, \<open>junk\<close> is the contents of \<^verbatim>\<open>buffer\<close> as
  allocated.
\<close>

definition limbo_update ::
  "(c_array \<Rightarrow> bytes \<Rightarrow> bytes \<Rightarrow> bytes res) \<Rightarrow> uint \<Rightarrow> (nat \<Rightarrow> bytes) \<Rightarrow> 'd bdb \<Rightarrow> ext \<Rightarrow> 'd dbs \<Rightarrow> bytes \<Rightarrow> 'd dbs res" where
  "limbo_update array_op LIMBO_MAX_LEVEL_SIZE junk B X dbs block =
     (let hash = block_compute_hash X block;
          buffer_size = 4 + word_of_nat SIZE_SHA256 * LIMBO_MAX_LEVEL_SIZE;
          key = new_dbt [] 4;
          dat = new_dbt (junk (unat buffer_size)) buffer_size;
          (ret, dat) = db_get B (limbo_db dbs) key dat;
          arr = array_init 4 (word_of_nat SIZE_SHA256) (bytes_to_uint X (data_d dat)) LIMBO_MAX_LEVEL_SIZE
      in rbind (array_op arr (data_d dat) hash) (\<lambda>buf.
         let (ret, db) = db_put B (limbo_db dbs) key (dat\<lparr>data_d := buf\<rparr>)
         in Inr (dbs\<lparr>limbo_db := db\<rparr>)))"

definition data_limbo_safe_add :: "uint \<Rightarrow> (nat \<Rightarrow> bytes) \<Rightarrow> 'd bdb \<Rightarrow> ext \<Rightarrow> 'd dbs \<Rightarrow> bytes \<Rightarrow> 'd dbs res" where
  "data_limbo_safe_add = limbo_update (\<lambda>arr mem hash. rbind (array_add arr mem hash) (\<lambda>(r, mem). Inr mem))"

definition data_limbo_del :: "uint \<Rightarrow> (nat \<Rightarrow> bytes) \<Rightarrow> 'd bdb \<Rightarrow> ext \<Rightarrow> 'd dbs \<Rightarrow> bytes \<Rightarrow> 'd dbs res" where
  "data_limbo_del = limbo_update array_del"

subsection \<open>The pool of pending transactions\<close>

definition data_mempool_get_size :: "'d dbs \<Rightarrow> uint" where
  "data_mempool_get_size dbs = count_m (mempool_d dbs)"

text \<open>\<open>None\<close> is the null pointer.\<close>

definition data_mempool_get :: "'d dbs \<Rightarrow> uint \<Rightarrow> m_tx option res" where
  "data_mempool_get dbs index =
     (if index \<ge> count_m (mempool_d dbs) then Inr None else load (slots (mempool_d dbs)) (unat index))"

text \<open>First argument: \<^verbatim>\<open>count - i\<close>.\<close>

primrec mempool_exists_loop :: "nat \<Rightarrow> nat \<Rightarrow> m_tx option list \<Rightarrow> bytes \<Rightarrow> bool res" where
  "mempool_exists_loop 0 i txs hash = Inr False"
| "mempool_exists_loop (Suc n) i txs hash =
     rbind (load txs i) (\<lambda>p.
     case p of None \<Rightarrow> Inl NullPointer
     | Some tx \<Rightarrow>
         (case hash_t tx of None \<Rightarrow> Inl NullPointer
          | Some h \<Rightarrow>
              rbind (mem_read h 0 SIZE_SHA256) (\<lambda>x.
              rbind (mem_read hash 0 SIZE_SHA256) (\<lambda>y.
              if x = y then Inr True else mempool_exists_loop n (i + 1) txs hash))))"

definition data_mempool_exists :: "'d dbs \<Rightarrow> bytes \<Rightarrow> bool res" where
  "data_mempool_exists dbs hash =
     mempool_exists_loop (unat (count_m (mempool_d dbs))) 0 (slots (mempool_d dbs)) hash"

text \<open>
  \<^verbatim>\<open>data_mempool_add\<close>: the identifier \<^verbatim>\<open>hash\<close> that it passes to \<^verbatim>\<open>data_mempool_exists\<close> is not declared and is an
  argument; \<^verbatim>\<open>size\<close> in \<^verbatim>\<open>tx.max = size\<close> is the size just computed. The new \<^verbatim>\<open>tx.data\<close> is allocated, with
  contents \<open>junk\<close>, and never filled.
\<close>

definition data_mempool_add :: "(nat \<Rightarrow> bytes) \<Rightarrow> ext \<Rightarrow> bytes \<Rightarrow> 'd dbs \<Rightarrow> bytes \<Rightarrow> 'd dbs res" where
  "data_mempool_add junk X hash dbs data =
     rbind (data_mempool_exists dbs hash) (\<lambda>found.
     if found then Inr dbs
     else
       let sz = tx_compute_size X data;
           tx_data = junk (unat sz);
           tx = \<lparr>hash_t = Some (tx_compute_hash X tx_data), data_t = Some tx_data, size_t = sz, max_t = sz\<rparr>;
           m = mempool_d dbs
       in rbind (store (slots m) (unat (count_m m)) (Some tx)) (\<lambda>txs.
          Inr (dbs\<lparr>mempool_d := \<lparr>slots = txs, count_m = count_m m + 1\<rparr>\<rparr>)))"

text \<open>
  \<^verbatim>\<open>data_mempool_del\<close>: the struct has no field \<^verbatim>\<open>size\<close>; it is read as \<^verbatim>\<open>count\<close>. The comparison is with
  \<^verbatim>\<open>dbs->mempool->txs[i]\<close>, a pointer to the struct, not with its hash: \<open>object\<close> gives the bytes of a struct \<^verbatim>\<open>M_tx\<close>
  in memory. First argument: \<^verbatim>\<open>size - i\<close>.
\<close>

primrec mempool_del_loop :: "nat \<Rightarrow> nat \<Rightarrow> (m_tx \<Rightarrow> bytes) \<Rightarrow> uint \<Rightarrow> mempool \<Rightarrow> bytes \<Rightarrow> (m_tx option \<times> mempool) res" where
  "mempool_del_loop 0 i object sz m hash = Inr (None, m)"
| "mempool_del_loop (Suc n) i object sz m hash =
     rbind (load (slots m) i) (\<lambda>p.
     rbind (mem_read hash 0 SIZE_SHA256) (\<lambda>x.
     case p of None \<Rightarrow> Inl NullPointer
     | Some tx \<Rightarrow>
         rbind (mem_read (object tx) 0 SIZE_SHA256) (\<lambda>y.
         if x \<noteq> y then mempool_del_loop n (i + 1) object sz m hash
         else
           let m = m\<lparr>count_m := count_m m - 1\<rparr> in
           rbind (if count_m m > 0
                  then rbind (load (slots m) (unat sz)) (store (slots m) i)
                  else Inr (slots m)) (\<lambda>txs.
           rbind (store txs (unat sz) None) (\<lambda>txs.
           Inr (Some tx, m\<lparr>slots := txs\<rparr>))))))"

definition data_mempool_del :: "(m_tx \<Rightarrow> bytes) \<Rightarrow> 'd dbs \<Rightarrow> bytes \<Rightarrow> (m_tx option \<times> 'd dbs) res" where
  "data_mempool_del object dbs hash =
     (let m = mempool_d dbs; sz = count_m m in
      rbind (mempool_del_loop (unat sz) 0 object sz m hash) (\<lambda>(retval, m).
      Inr (retval, dbs\<lparr>mempool_d := m\<rparr>)))"

subsection \<open>Keys and values are empty\<close>

lemma dbt_bytes_new [simp]: "dbt_bytes (new_dbt data sz) = []" "dbt_bytes (new_pdbt data psize pstart) = []"
  by (simp_all add: dbt_bytes_def new_dbt_def new_pdbt_def)

lemma add_txs_loop_blocks_db: "blocks_db (add_txs_loop n B X dbs block bh cursor) = blocks_db dbs"
  by (induction n arbitrary: dbs cursor) (auto simp: data_txs_add_def Let_def split: prod.splits)

lemma empty_get:
  assumes "bdb_documented B" "b_put B db k v = (0, db')" "dbt_bytes k = []" "dbt_bytes v = []" "dbt_bytes k' = []" "usermem dat"
  shows "b_get B db' k' dat = (0, dat\<lparr>size_d := 0\<rparr>)"
proof -
  have "got dat [] (b_get B db' k' dat)"
    using assms unfolding bdb_documented_def by metis
  then show ?thesis by (simp add: got_def requested_def split: if_splits)
qed

lemma blocks_add_empties:
  assumes "bdb_documented B" "\<forall>db k v. fst (b_put B db k v) = 0"
  shows "data_blocks_exists B (data_blocks_add base B X dbs block) hash = 1
    \<and> data_blocks_get B (data_blocks_add base B X dbs block) hash dest = (0, dest)
    \<and> data_blocks_get_header B (data_blocks_add base B X dbs block) hash dest = (0, dest)"
proof -
  let ?dbs = "data_blocks_add base B X dbs block"
  obtain db k v where put: "b_put B db k v = (0, blocks_db ?dbs)" and e: "dbt_bytes k = []" "dbt_bytes v = []"
  proof -
    let ?k = "new_dbt (block_compute_hash X block) 32"
      and ?v = "new_dbt block (block_compute_size base (\<lambda>b off. tx_compute_size X (drop off b)) block)"
    obtain db' where "b_put B (blocks_db dbs) ?k ?v = (0, db')" using assms(2) by (metis eq_fst_iff)
    then show ?thesis
      using that [of "blocks_db dbs" ?k ?v] by (simp add: data_blocks_add_def Let_def db_put_def add_txs_loop_blocks_db)
  qed
  have "b_exists B (blocks_db ?dbs) (new_dbt hash 32) = 0"
    using assms(1) put e unfolding bdb_documented_def by (metis dbt_bytes_new(1))
  moreover have "b_get B (blocks_db ?dbs) (new_dbt hash 32) dat = (0, dat\<lparr>size_d := 0\<rparr>)" if "usermem dat" for dat
    using empty_get [OF assms(1) put e _ that] by simp
  ultimately show ?thesis
    by (simp add: data_blocks_exists_def data_blocks_get_def data_blocks_get_header_def db_exists_def db_get_def Let_def
        new_dbt_def new_pdbt_def)
qed

text \<open>
  C29. \<^verbatim>\<open>new_dbt\<close> sets \<^verbatim>\<open>ulen\<close> and leaves \<^verbatim>\<open>size\<close> 0, so every key and every value handed to Berkeley DB is empty. With a
  library that behaves as documented and reports no storage error, after any one \<^verbatim>\<open>data_blocks_add\<close> every hash whatsoever
  counts as a stored block, and reading a block or a header succeeds without touching the destination.
\<close>

theorem blocks_lookup_collides:
  assumes "bdb_documented B" "\<forall>db k v. fst (b_put B db k v) = 0"
  shows "data_blocks_exists B (data_blocks_add base B X dbs block) hash = 1
    \<and> data_blocks_get B (data_blocks_add base B X dbs block) hash dest = (0, dest)
    \<and> data_blocks_get_header B (data_blocks_add base B X dbs block) hash dest = (0, dest)"
  using assms by (rule blocks_add_empties)

text \<open>A library that behaves as documented: association lists.\<close>

definition alist_get :: "(bytes \<times> bytes) list \<Rightarrow> dbt \<Rightarrow> dbt \<Rightarrow> int \<times> dbt" where
  "alist_get db k dat =
     (case map_of db (dbt_bytes k) of
        None \<Rightarrow> (-30988, dat)
      | Some v \<Rightarrow>
          let r = requested dat v in
          if length r \<le> unat (ulen_d dat) then (0, dat\<lparr>data_d := patch (data_d dat) 0 r, size_d := word_of_nat (length r)\<rparr>)
          else (-30999, dat\<lparr>size_d := word_of_nat (length r)\<rparr>))"

definition alist_bdb :: "(bytes \<times> bytes) list bdb" where
  "alist_bdb = \<lparr>b_put = (\<lambda>db k v. (0, (dbt_bytes k, dbt_bytes v) # db)), b_get = alist_get,
     b_exists = (\<lambda>db k. if map_of db (dbt_bytes k) = None then -30988 else 0), b_scan = (\<lambda>db. (0, map snd db))\<rparr>"

lemma alist_bdb_documented: "bdb_documented alist_bdb"
  by (auto simp: bdb_documented_def alist_bdb_def got_def alist_get_def Let_def)

definition some_ext :: ext where
  "some_ext = \<lparr>tx_compute_size = (\<lambda>_. 1), tx_get_size = (\<lambda>_. 1), tx_compute_hash = (\<lambda>_. replicate 32 1),
     block_compute_hash = (\<lambda>_. replicate 32 2), block_get_height = (\<lambda>b. case b of [] \<Rightarrow> 0 | x # _ \<Rightarrow> ucast x),
     block_get_tx_count = (\<lambda>_. 1), bytes_to_uint = (\<lambda>_. 0)\<rparr>"

definition some_dbs :: "(bytes \<times> bytes) list dbs" where
  "some_dbs = \<lparr>blocks_db = [], chain_db = [([], [3]), ([], [7])], limbo_db = [], txs_db = [], nodes_db = [],
     mempool_d = \<lparr>slots = replicate 500 None, count_m = 0\<rparr>\<rparr>"

theorem blocks_lookup_collides_witness:
  "data_blocks_exists alist_bdb (data_blocks_add 0 alist_bdb some_ext some_dbs [9]) (replicate 32 7) = 1
   \<and> data_blocks_get alist_bdb (data_blocks_add 0 alist_bdb some_ext some_dbs [9]) (replicate 32 7) [5] = (0, [5])"
  using blocks_lookup_collides [OF alist_bdb_documented, of 0 some_ext some_dbs "[9]" "replicate 32 7" "[5]"]
  by (simp add: alist_bdb_def)

subsection \<open>Heights\<close>

lemma highest_loop_max: "highest_loop X dats h = Max (insert h (block_get_height X ` set dats))"
proof (induction dats arbitrary: h)
  case (Cons d dats)
  have "Max (insert (max h (block_get_height X d)) (block_get_height X ` set dats))
      = Max (insert h (block_get_height X ` set (d # dats)))"
    by (cases "dats = []") (simp_all add: ac_simps)
  moreover have "(if block_get_height X d > h then block_get_height X d else h) = max h (block_get_height X d)"
    by (auto simp: max_def dest: order.strict_implies_order)
  ultimately show ?case using Cons.IH by (simp add: Let_def)
qed simp

text \<open>
  The height of the chain (and of limbo) that \<^verbatim>\<open>_data_VAR_get_height\<close> returns is the maximum of the heights the
  cursor delivers and of the garbage in the uninitialised \<^verbatim>\<open>highest\<close>: it is the height of the chain only if
  that garbage happens not to exceed it. A cursor that cannot be opened ends the program.
\<close>

lemma chain_height_garbage:
  "data_chain_get_height junk_highest B X dbs =
    (case b_scan B (chain_db dbs) of (ret, dats) \<Rightarrow>
      if ret = 0 then Inr (Max (insert junk_highest (block_get_height X ` set dats)))
      else Inl (Fatal ''failed to init cursor in _data_VAR_get_height''))"
  by (simp add: data_chain_get_height_def data_VAR_get_height_def highest_loop_max split: prod.splits)

subsection \<open>The pool\<close>

text \<open>The first \<^verbatim>\<open>count\<close> slots point to transactions with a 32-byte hash.\<close>

definition pool_entry :: "m_tx option \<Rightarrow> bool" where
  "pool_entry p = (case p of Some tx \<Rightarrow> (case hash_t tx of Some h \<Rightarrow> length h = 32 | None \<Rightarrow> False) | None \<Rightarrow> False)"

lemma pool_entry_iff: "pool_entry p \<longleftrightarrow> (\<exists>tx h. p = Some tx \<and> hash_t tx = Some h \<and> length h = 32)"
  by (auto simp: pool_entry_def split: option.splits)

definition pool_wf :: "mempool \<Rightarrow> bool" where
  "pool_wf m \<longleftrightarrow> unat (count_m m) \<le> length (slots m) \<and> list_all pool_entry (take (unat (count_m m)) (slots m))"

definition pool_hashes :: "mempool \<Rightarrow> bytes set" where
  "pool_hashes m = {h. \<exists>i < unat (count_m m). \<exists>tx. slots m ! i = Some tx \<and> hash_t tx = Some h}"

lemma mempool_exists_loop_ok:
  assumes "length hash = 32"
  shows "i + n \<le> length txs \<Longrightarrow> list_all pool_entry (segment txs i n)
   \<Longrightarrow> mempool_exists_loop n i txs hash = Inr (\<exists>k. i \<le> k \<and> k < i + n \<and> (\<exists>tx. txs ! k = Some tx \<and> hash_t tx = Some hash))"
proof (induction n arbitrary: i)
  case (Suc n)
  have "segment txs i (Suc n) = txs ! i # segment txs (i + 1) n"
    using Suc.prems(1) by (simp add: segment_def Cons_nth_drop_Suc [symmetric])
  with Suc.prems(2) obtain tx h where e: "txs ! i = Some tx" "hash_t tx = Some h" "length h = 32"
    and rest: "list_all pool_entry (segment txs (i + 1) n)"
    by (auto simp: pool_entry_iff [of "txs ! i"])
  have s: "mem_read h 0 32 = Inr h" "mem_read hash 0 32 = Inr hash" using e(3) assms by (simp_all add: mem_simps)
  have split: "(\<exists>k. i \<le> k \<and> k < i + Suc n \<and> P k) \<longleftrightarrow> P i \<or> (\<exists>k. i + 1 \<le> k \<and> k < i + 1 + n \<and> P k)" for P
  proof -
    have "i \<le> k \<and> k < i + Suc n \<longleftrightarrow> k = i \<or> (i + 1 \<le> k \<and> k < i + 1 + n)" for k by auto
    then show ?thesis by (metis (full_types))
  qed
  show ?case
    unfolding split using Suc.IH [of "i + 1"] Suc.prems(1) e rest s by auto
qed simp

lemma data_mempool_exists_ok:
  assumes "pool_wf (mempool_d dbs)" "length hash = 32"
  shows "data_mempool_exists dbs hash = Inr (hash \<in> pool_hashes (mempool_d dbs))"
  using mempool_exists_loop_ok [OF assms(2), of 0 "unat (count_m (mempool_d dbs))" "slots (mempool_d dbs)"] assms(1)
  by (simp add: data_mempool_exists_def pool_wf_def pool_hashes_def segment_def)

lemma data_mempool_add_cases:
  assumes "pool_wf (mempool_d dbs)" "length hash = 32" "\<forall>d. length (tx_compute_hash X d) = 32"
    and "unat (count_m (mempool_d dbs)) < 2 ^ 32 - 1"
  shows "if hash \<in> pool_hashes (mempool_d dbs) then data_mempool_add junk X hash dbs data = Inr dbs
    else if unat (count_m (mempool_d dbs)) = length (slots (mempool_d dbs))
      then data_mempool_add junk X hash dbs data = Inl OutOfBounds
    else \<exists>dbs' tx. data_mempool_add junk X hash dbs data = Inr dbs' \<and> pool_wf (mempool_d dbs')
      \<and> length (slots (mempool_d dbs')) = length (slots (mempool_d dbs))
      \<and> unat (count_m (mempool_d dbs')) = unat (count_m (mempool_d dbs)) + 1
      \<and> slots (mempool_d dbs') ! unat (count_m (mempool_d dbs)) = Some tx
      \<and> data_t tx = Some (junk (unat (tx_compute_size X data)))
      \<and> hash_t tx = Some (tx_compute_hash X (junk (unat (tx_compute_size X data))))"
proof -
  let ?m = "mempool_d dbs"
  let ?n = "unat (count_m ?m)"
  define d where "d = junk (unat (tx_compute_size X data))"
  define tx where "tx = \<lparr>hash_t = Some (tx_compute_hash X d), data_t = Some d,
      size_t = tx_compute_size X data, max_t = tx_compute_size X data\<rparr>"
  have ex: "data_mempool_exists dbs hash = Inr (hash \<in> pool_hashes ?m)" using assms(1,2) by (rule data_mempool_exists_ok)
  show ?thesis
  proof (cases "hash \<in> pool_hashes ?m \<or> ?n = length (slots ?m)")
    case True
    then show ?thesis using ex by (auto simp: data_mempool_add_def Let_def)
  next
    case False
    then have lt: "?n < length (slots ?m)" using assms(1) by (simp add: pool_wf_def)
    have c: "unat (count_m ?m + 1) = ?n + 1" using assms(4) by (simp add: unat_word_ariths)
    have run: "data_mempool_add junk X hash dbs data
        = Inr (dbs\<lparr>mempool_d := \<lparr>slots = (slots ?m)[?n := Some tx], count_m = count_m ?m + 1\<rparr>\<rparr>)"
      using False ex lt by (simp add: data_mempool_add_def Let_def tx_def d_def)
    have "take (?n + 1) ((slots ?m)[?n := Some tx]) = take ?n (slots ?m) @ [Some tx]"
      using lt by (simp add: take_Suc_conv_app_nth)
    moreover have "pool_entry (Some tx)" using assms(3) by (simp add: pool_entry_def tx_def)
    ultimately have "pool_wf \<lparr>slots = (slots ?m)[?n := Some tx], count_m = count_m ?m + 1\<rparr>"
      using assms(1) lt by (simp add: pool_wf_def c)
    then show ?thesis using False run c lt by (auto simp: tx_def d_def)
  qed
qed


lemma some_dbs_pool: "pool_wf (mempool_d some_dbs)" "pool_hashes (mempool_d some_dbs) = {}"
  by (simp_all add: pool_wf_def some_dbs_def pool_hashes_def)

lemma some_values:
  "tx_compute_size some_ext d = 1" "tx_compute_hash some_ext d = replicate 32 1"
  "count_m (mempool_d some_dbs) = 0" "slots (mempool_d some_dbs) = replicate 500 None"
  by (simp_all add: some_ext_def some_dbs_def)


text \<open>
  \<^verbatim>\<open>data_mempool_exists\<close> on a well-formed pool never faults and tells whether the hash is that of one of the
  transactions of the pool; \<^verbatim>\<open>data_mempool_get\<close> returns the transaction at an index below the count and
  \<^verbatim>\<open>NULL\<close> for every other index.
\<close>

lemma data_mempool_lookup:
  assumes "pool_wf (mempool_d dbs)" "length hash = 32"
  shows "data_mempool_exists dbs hash = Inr (hash \<in> pool_hashes (mempool_d dbs))
    \<and> data_mempool_get dbs index = Inr (if index < count_m (mempool_d dbs) then slots (mempool_d dbs) ! unat index else None)"
proof -
  have "data_mempool_get dbs index = Inr (slots (mempool_d dbs) ! unat index)" if "index < count_m (mempool_d dbs)"
  proof -
    have "unat index < length (slots (mempool_d dbs))" using that assms(1) by (simp add: pool_wf_def word_less_nat_alt)
    moreover have "\<not> count_m (mempool_d dbs) \<le> index" using that by (simp only: not_le)
    ultimately show ?thesis by (simp add: data_mempool_get_def)
  qed
  moreover have "data_mempool_get dbs index = Inr None" if "\<not> index < count_m (mempool_d dbs)"
    using that by (simp add: data_mempool_get_def not_less)
  ultimately show ?thesis
    using data_mempool_exists_ok [OF assms] by simp
qed

lemma data_mempool_lookup_witness:
  "data_mempool_exists some_dbs (replicate 32 4) = Inr False \<and> data_mempool_get some_dbs 3 = Inr None"
  using data_mempool_lookup [OF some_dbs_pool(1), of "replicate 32 4" 3]
  by (simp add: some_dbs_pool) (simp add: some_dbs_def)

text \<open>
  \<^verbatim>\<open>data_mempool_del\<close> cannot delete: it compares the hash with the struct and not with the hash the struct points to, and
  reads past the end of the struct (24 bytes with 8-byte pointers) on the first transaction of any pool that is not empty.
\<close>

lemma data_mempool_del_overreads:
  assumes "pool_wf (mempool_d dbs)" "0 < count_m (mempool_d dbs)" "\<forall>tx. length (object tx) = 24" "length hash = 32"
  shows "data_mempool_del object dbs hash = Inl OutOfBounds"
proof -
  let ?m = "mempool_d dbs"
  obtain n where n: "unat (count_m ?m) = Suc n" using assms(2) by (metis word_less_nat_alt unat_0 gr0_conv_Suc)
  with assms(1) obtain tx where "slots ?m ! 0 = Some tx" "0 < length (slots ?m)"
    by (cases "slots ?m") (auto simp: pool_wf_def pool_entry_def split: option.splits)
  then show ?thesis using assms(3,4) by (simp add: data_mempool_del_def Let_def n mem_simps)
qed

definition one_tx_dbs :: "(bytes \<times> bytes) list dbs" where
  "one_tx_dbs = some_dbs\<lparr>mempool_d := \<lparr>slots = [Some \<lparr>hash_t = Some (replicate 32 4), data_t = None, size_t = 0, max_t = 0\<rparr>],
     count_m = 1\<rparr>\<rparr>"

lemma data_mempool_del_overreads_witness:
  "data_mempool_del (\<lambda>_. replicate 24 0) one_tx_dbs (replicate 32 4) = Inl OutOfBounds"
  by (rule data_mempool_del_overreads) (simp_all add: one_tx_dbs_def pool_wf_def pool_entry_def)

subsection \<open>Limbo\<close>

text \<open>
  \<^verbatim>\<open>data_limbo_safe_add\<close> never records the block: when it returns, it has written back to the limbo
  database exactly what it had read from there, whatever the block. (The hypothesis excludes an overflow of the
  32-bit product in \<^verbatim>\<open>array_add\<close>.)
\<close>

lemma data_limbo_safe_add_records_nothing:
  fixes B :: "'d bdb"
  defines "dat \<equiv> \<lambda>L junk dbs. snd (b_get B (limbo_db dbs) (new_dbt [] 4) (new_dbt (junk (unat (4 + 32 * L))) (4 + 32 * L)))"
  assumes "data_limbo_safe_add L junk B X dbs block = Inr dbs'"
    and "33 * unat (bytes_to_uint X (data_d (dat L junk dbs))) < 2 ^ 32"
  shows "dbs' = dbs\<lparr>limbo_db := snd (b_put B (limbo_db dbs) (new_dbt [] 4) (dat L junk dbs))\<rparr>"
proof -
  let ?d = "dat L junk dbs"
  let ?arr = "array_init 4 32 (bytes_to_uint X (data_d ?d)) L"
  from assms(2) obtain r mem where add: "array_add ?arr (data_d ?d) (block_compute_hash X block) = Inr (r, mem)"
    and dbs': "dbs' = dbs\<lparr>limbo_db := snd (b_put B (limbo_db dbs) (new_dbt [] 4) (?d\<lparr>data_d := mem\<rparr>))\<rparr>"
    unfolding dat_def
    by (auto simp: data_limbo_safe_add_def limbo_update_def Let_def db_get_def db_put_def rbind_eq_Inr split_beta)
  have "(unat (usize_f ?arr) + 1) * unat (length_f ?arr) < 2 ^ 32"
    using assms(3) by (simp add: array_init_def)
  then have "mem = data_d ?d" using add by (rule array_add_same)
  then show ?thesis using dbs' by simp
qed

lemma data_limbo_safe_add_records_nothing_witness:
  "data_limbo_safe_add 1 (\<lambda>n. replicate n 0) alist_bdb some_ext some_dbs [9] = Inr (some_dbs\<lparr>limbo_db := [([], [])]\<rparr>)"
proof -
  have "\<exists>dbs'. data_limbo_safe_add 1 (\<lambda>n. replicate n 0) alist_bdb some_ext some_dbs [9] = Inr dbs'"
    by (simp add: data_limbo_safe_add_def limbo_update_def Let_def db_get_def db_put_def alist_bdb_def alist_get_def
        some_dbs_def some_ext_def array_add_def array_init_def new_dbt_def slot_differs_def mem_read_def segment_def)
  then obtain dbs' where d: "data_limbo_safe_add 1 (\<lambda>n. replicate n 0) alist_bdb some_ext some_dbs [9] = Inr dbs'" by blast
  from data_limbo_safe_add_records_nothing [OF d] have "dbs' = some_dbs\<lparr>limbo_db := [([], [])]\<rparr>"
    by (simp add: alist_bdb_def alist_get_def some_dbs_def some_ext_def)
  with d show ?thesis by simp
qed

end
