(* ===== verification/Build.thy ===== *)
theory Build
  imports Data
begin

text \<open>
  \<^verbatim>\<open>src/include/build.h\<close>, \<^verbatim>\<open>src/src/build.c\<close>: lists of hashes for the messages of the network protocol.

  A pointer into a caller's buffer is the buffer and an offset. A function that ends without
  \<^verbatim>\<open>return\<close> (\<^verbatim>\<open>build_mempool_list\<close>) has no value here.
\<close>

subsection \<open>What a peer announced and we do not have\<close>

text \<open>
  The loop of \<^verbatim>\<open>build_missing_blocks_list\<close> and \<^verbatim>\<open>build_missing_tx_list\<close>, over the lookup function that each of them calls.
  First argument: \<^verbatim>\<open>count - i\<close>.
\<close>

primrec missing_loop ::
  "nat \<Rightarrow> nat \<Rightarrow> nat \<Rightarrow> (bytes \<Rightarrow> int) \<Rightarrow> bytes \<Rightarrow> nat \<Rightarrow> bytes \<Rightarrow> nat \<Rightarrow> (nat \<times> bytes) res" where
  "missing_loop 0 i missing exists_fn list loff dest doff = Inr (missing, dest)"
| "missing_loop (Suc n) i missing exists_fn list loff dest doff =
     rbind (if exists_fn (drop (loff + i * SIZE_SHA256) list) = 0
            then rbind (memcpy dest (doff + SIZE_SHA256 * missing) list (loff + i * SIZE_SHA256) SIZE_SHA256)
                   (\<lambda>dest. Inr (missing + 1, dest))
            else Inr (missing, dest)) (\<lambda>(missing, dest).
     if missing = 255 then Inr (missing, dest)
     else missing_loop n (i + 1) missing exists_fn list loff dest doff)"

definition build_missing_blocks_list ::
  "'d bdb \<Rightarrow> 'd dbs \<Rightarrow> bytes \<Rightarrow> nat \<Rightarrow> uchar \<Rightarrow> bytes \<Rightarrow> nat \<Rightarrow> (uchar \<times> bytes) res" where
  "build_missing_blocks_list B dbs list loff count dest doff =
     rbind (missing_loop (unat count) 0 0 (data_blocks_exists B dbs) list loff dest doff) (\<lambda>(missing, dest).
     Inr (word_of_nat missing, dest))"

definition build_missing_tx_list ::
  "'d bdb \<Rightarrow> 'd dbs \<Rightarrow> bytes \<Rightarrow> nat \<Rightarrow> uchar \<Rightarrow> bytes \<Rightarrow> nat \<Rightarrow> (uchar \<times> bytes) res" where
  "build_missing_tx_list B dbs list loff count dest doff =
     rbind (missing_loop (unat count) 0 0 (data_txs_exists B dbs) list loff dest doff) (\<lambda>(missing, dest).
     Inr (word_of_nat missing, dest))"

subsection \<open>What we have\<close>

text \<open>
  \<^verbatim>\<open>build_mempool_list\<close>: \<open>object\<close> gives the bytes of a struct \<^verbatim>\<open>M_tx\<close> in memory, since the source copies from
  the pointer to the struct. \<^verbatim>\<open>max\<close> is the count as a signed \<^verbatim>\<open>int\<close>. First argument: \<^verbatim>\<open>max - i\<close>.
\<close>

primrec mempool_list_loop :: "nat \<Rightarrow> nat \<Rightarrow> (m_tx \<Rightarrow> bytes) \<Rightarrow> m_tx option list \<Rightarrow> bytes \<Rightarrow> nat \<Rightarrow> bytes res" where
  "mempool_list_loop 0 i object txs dest doff = Inr dest"
| "mempool_list_loop (Suc n) i object txs dest doff =
     rbind (load txs i) (\<lambda>p.
     case p of None \<Rightarrow> Inl NullPointer
     | Some tx \<Rightarrow>
         rbind (memcpy dest (doff + i * SIZE_SHA256) (object tx) 0 SIZE_SHA256) (\<lambda>dest.
         mempool_list_loop n (i + 1) object txs dest doff))"

definition build_mempool_list :: "(m_tx \<Rightarrow> bytes) \<Rightarrow> 'd dbs \<Rightarrow> bytes \<Rightarrow> nat \<Rightarrow> bytes res" where
  "build_mempool_list object dbs dest doff =
     mempool_list_loop (nat (sint (count_m (mempool_d dbs)))) 0 object (slots (mempool_d dbs)) dest doff"

text \<open>
  \<^verbatim>\<open>build_block_list\<close>: each hash is copied into \<^verbatim>\<open>hash_buffer\<close>, from its own start, and never to \<^verbatim>\<open>dest\<close>. The loop variable is
  an \<^verbatim>\<open>int\<close> compared with an \<^verbatim>\<open>uint\<close>; heights are taken modulo \<open>2\<^sup>3\<^sup>2\<close>. First argument: the iterations left.
\<close>

primrec block_list_loop :: "nat \<Rightarrow> uint \<Rightarrow> nat \<Rightarrow> endian \<Rightarrow> 'd bdb \<Rightarrow> 'd dbs \<Rightarrow> bytes \<Rightarrow> nat res" where
  "block_list_loop 0 i count e B dbs hash_buffer = Inr count"
| "block_list_loop (Suc n) i count e B dbs hash_buffer =
     (case data_chain_get e B dbs i hash_buffer of (ret, hash_buffer) \<Rightarrow>
        if ret \<noteq> 0 then Inr count
        else
          rbind (memcpy hash_buffer (count * SIZE_SHA256) hash_buffer 0 SIZE_SHA256) (\<lambda>hash_buffer.
          block_list_loop n (i + 1) (count + 1) e B dbs hash_buffer))"

definition build_block_list ::
  "endian \<Rightarrow> (nat \<Rightarrow> bytes) \<Rightarrow> uint \<Rightarrow> 'd bdb \<Rightarrow> ext \<Rightarrow> 'd dbs \<Rightarrow> bytes \<Rightarrow> uchar \<Rightarrow> bytes \<Rightarrow> (uchar \<times> bytes) res" where
  "build_block_list e junk junk_highest B X dbs startblock req_blocks dest =
     (case data_blocks_get_header B dbs startblock (junk SIZE_BLOCK_HEADER) of (ret, block_buffer) \<Rightarrow>
        if ret \<noteq> 0 then Inr (0, dest)
        else
          rbind (btoui e block_buffer POS_BLOCK_HEIGHT) (\<lambda>height.
          rbind (data_chain_get_height junk_highest B X dbs) (\<lambda>chain_height.
          let index = height + 1;
              mx = chain_height + 1;
              req_max = index + ucast req_blocks;
              mx = (if mx - index > 255 then index + 255 else mx);
              mx = (if req_max < mx then req_max else mx);
              n = (if index < mx then unat (mx - index) else 0)
          in rbind (block_list_loop n index 0 e B dbs (junk SIZE_SHA256)) (\<lambda>count.
             Inr (word_of_nat count, dest)))))"

subsection \<open>Missing hashes\<close>

text \<open>The positions of a list at which a lookup finds nothing, and the hashes there.\<close>

definition missing_at :: "(bytes \<Rightarrow> int) \<Rightarrow> bytes \<Rightarrow> nat \<Rightarrow> nat \<Rightarrow> nat list" where
  "missing_at exists_fn list loff n = filter (\<lambda>i. exists_fn (drop (loff + i * 32) list) = 0) [0..<n]"

definition hashes_at :: "bytes \<Rightarrow> nat \<Rightarrow> nat list \<Rightarrow> bytes" where
  "hashes_at list loff is = concat (map (\<lambda>i. segment list (loff + i * 32) 32) is)"

lemma length_hashes_at:
  "\<forall>i \<in> set is. loff + i * 32 + 32 \<le> length list \<Longrightarrow> length (hashes_at list loff is) = 32 * length is"
  by (induction "is") (auto simp: hashes_at_def mem_simps)

lemma missing_loop_ok:
  assumes "loff + 32 * (i + n) \<le> length list" "doff + 32 * (length (missing_at ex list loff i) + n) \<le> length dest" "i + n \<le> 255"
  shows "missing_loop n i (length (missing_at ex list loff i)) ex list loff
        (patch dest doff (hashes_at list loff (missing_at ex list loff i))) doff
      = Inr (length (missing_at ex list loff (i + n)), patch dest doff (hashes_at list loff (missing_at ex list loff (i + n))))"
  using assms
proof (induction n arbitrary: i)
  case (Suc n)
  let ?is = "missing_at ex list loff i" and ?p = "drop (loff + i * 32) list"
  let ?d = "patch dest doff (hashes_at list loff ?is)"
  have len: "length (hashes_at list loff ?is) = 32 * length ?is"
    using Suc.prems(1) by (intro length_hashes_at) (auto simp: missing_at_def)
  have short: "length ?is \<le> i"
    using length_filter_le [of "\<lambda>i. ex (drop (loff + i * 32) list) = 0" "[0..<i]"] by (simp add: missing_at_def)
  have next_is: "missing_at ex list loff (Suc i) = (if ex ?p = 0 then ?is @ [i] else ?is)"
    by (simp add: missing_at_def)
  have step: "(if ex ?p = 0 then rbind (memcpy ?d (doff + 32 * length ?is) list (loff + i * 32) 32) (\<lambda>dest. Inr (length ?is + 1, dest))
       else Inr (length ?is, ?d))
     = Inr (length (missing_at ex list loff (Suc i)), patch dest doff (hashes_at list loff (missing_at ex list loff (Suc i))))"
    using Suc.prems(1,2) len
    by (auto simp: next_is mem_simps hashes_at_def intro!: patch_extend)
  show ?case
  proof (cases "length (missing_at ex list loff (Suc i)) = 255")
    case True
    then have "n = 0" using short Suc.prems(3) by (auto simp: next_is split: if_splits)
    then show ?thesis using step True by simp
  next
    case False
    have "doff + 32 * (length (missing_at ex list loff (Suc i)) + n) \<le> length dest"
      using Suc.prems(2) by (simp add: next_is)
    with Suc.IH [of "Suc i"] Suc.prems(1,3) step False show ?thesis by simp
  qed
qed simp

lemma missing_list_ok:
  assumes "loff + 32 * unat count \<le> length list" "doff + 32 * unat count \<le> length dest"
  shows "missing_loop (unat (count :: uchar)) 0 0 ex list loff dest doff
    = Inr (length (missing_at ex list loff (unat count)), patch dest doff (hashes_at list loff (missing_at ex list loff (unat count))))"
proof -
  have "unat count < 256" using unsigned_less [of count] by simp
  then show ?thesis
    using missing_loop_ok [of loff 0 "unat count" list doff ex dest] assms by (simp add: missing_at_def hashes_at_def)
qed

text \<open>
  C31. The two functions that answer an inventory message filter it: for a list of \<^verbatim>\<open>count\<close> hashes they copy to the
  destination, in order and without gaps, exactly the hashes that the lookup does not find, and return their number. The
  early exit at 255 loses nothing.
\<close>

theorem build_missing_lists_filter:
  assumes "loff + 32 * unat count \<le> length list" "doff + 32 * unat count \<le> length dest"
  shows "build_missing_blocks_list B dbs list loff count dest doff =
      Inr (word_of_nat (length (missing_at (data_blocks_exists B dbs) list loff (unat count))),
           patch dest doff (hashes_at list loff (missing_at (data_blocks_exists B dbs) list loff (unat count))))
    \<and> build_missing_tx_list B dbs list loff count dest doff =
      Inr (word_of_nat (length (missing_at (data_txs_exists B dbs) list loff (unat count))),
           patch dest doff (hashes_at list loff (missing_at (data_txs_exists B dbs) list loff (unat count))))"
  using missing_list_ok [OF assms] by (simp add: build_missing_blocks_list_def build_missing_tx_list_def)

theorem build_missing_lists_filter_witness:
  "build_missing_tx_list alist_bdb some_dbs (replicate 32 6) 0 1 (replicate 34 0) 2 = Inr (1, [0, 0] @ replicate 32 6)"
proof -
  have m: "missing_at (data_txs_exists alist_bdb some_dbs) (replicate 32 6) 0 (unat (1 :: uchar)) = [0]"
    by (simp add: missing_at_def data_txs_exists_def db_exists_def alist_bdb_def some_dbs_def)
  have h: "hashes_at (replicate 32 6) 0 [0] = replicate 32 6"
    by (simp add: hashes_at_def segment_def)
  have l: "0 + 32 * unat (1 :: uchar) \<le> length (replicate 32 (6 :: uchar))" "2 + 32 * unat (1 :: uchar) \<le> length (replicate 34 (0 :: uchar))"
    by simp_all
  show ?thesis
    using build_missing_lists_filter [OF l, of alist_bdb some_dbs] unfolding m h
    by (simp add: patch_def numeral_2_eq_2)
qed

subsection \<open>The list of blocks\<close>

lemma block_list_loop_bound:
  assumes "\<And>db k dat. unat (ulen_d dat) \<le> length (data_d dat) \<Longrightarrow> length (data_d (snd (b_get B db k dat))) = length (data_d dat)"
    and "block_list_loop n i count e B dbs hb = Inr r" "length hb = 32" "count = 0 \<or> count = 1"
  shows "r = 0 \<or> r = 1"
  using assms(2-)
proof (induction n arbitrary: i count hb)
  case (Suc n)
  obtain ret hb' where g: "data_chain_get e B dbs i hb = (ret, hb')" by fastforce
  have l: "length hb' = 32"
    using g Suc.prems(2) assms(1) [of "new_dbt hb 32" "chain_db dbs" "new_dbt (host_bytes e i) 4"]
    by (auto simp: data_chain_get_def Let_def db_get_def new_dbt_def split: prod.splits)
  show ?case
  proof (cases "ret = 0 \<and> count = 0")
    case True
    moreover have "memcpy hb' 0 hb' 0 32 = Inr hb'" using l by (simp add: mem_simps patch_def segment_def)
    ultimately show ?thesis using Suc.prems(1) g Suc.IH [of "i + 1" 1 hb'] l by simp
  next
    case False
    with Suc.prems(1,3) g l show ?thesis by (auto simp: mem_simps split: if_splits)
  qed
qed auto

text \<open>
  C38. \<^verbatim>\<open>build_block_list\<close> cannot deliver a list of blocks: whenever it returns, it has left \<^verbatim>\<open>dest\<close> as it was and
  claims at most one block. (It copies every hash into \<^verbatim>\<open>hash_buffer\<close>, so a second one is written past the end of
  its 32 bytes.) The hypothesis is that the library does not resize memory that is as long as \<^verbatim>\<open>ulen\<close> says.
\<close>

theorem build_block_list_delivers_nothing:
  assumes "\<forall>db k dat. unat (ulen_d dat) \<le> length (data_d dat) \<longrightarrow> length (data_d (snd (b_get B db k dat))) = length (data_d dat)"
    and "\<forall>n. length (junk n) = n"
    and "build_block_list e junk junk_highest B X dbs startblock req_blocks dest = Inr (count, dest')"
  shows "dest' = dest \<and> (count = 0 \<or> count = 1)"
proof -
  obtain ret blk where g: "data_blocks_get_header B dbs startblock (junk 83) = (ret, blk)" by fastforce
  show ?thesis
  proof (cases "ret = 0")
    case False
    with assms(3) g show ?thesis by (simp add: build_block_list_def)
  next
    case True
    with assms(3) g obtain n i c where "block_list_loop n i 0 e B dbs (junk 32) = Inr c" "count = word_of_nat c" "dest' = dest"
      by (auto simp: build_block_list_def rbind_eq_Inr Let_def)
    with block_list_loop_bound [of B n i 0 e dbs "junk 32" c] assms(1,2) show ?thesis by auto
  qed
qed

lemma alist_bdb_lengths:
  "unat (ulen_d dat) \<le> length (data_d dat) \<Longrightarrow> length (data_d (snd (b_get alist_bdb db k dat))) = length (data_d dat)"
  by (auto simp: alist_bdb_def alist_get_def Let_def mem_simps split: option.splits)

definition chain_dbs :: "(bytes \<times> bytes) list dbs" where
  "chain_dbs = some_dbs\<lparr>blocks_db := [([], [])]\<rparr>"

theorem build_block_list_delivers_nothing_witness:
  "\<exists>count. build_block_list Big (\<lambda>n. replicate n 0) 0 alist_bdb some_ext chain_dbs (replicate 32 1) 1 [5] = Inr (count, [5])
    \<and> (count = 0 \<or> count = 1)"
proof -
  have run: "build_block_list Big (\<lambda>n. replicate n 0) 0 alist_bdb some_ext chain_dbs (replicate 32 1) 1 [5] = Inr (1, [5])"
    by code_simp
  have "[5 :: uchar] = [5] \<and> (1 = (0 :: uchar) \<or> 1 = (1 :: uchar))"
    using alist_bdb_lengths run by (intro build_block_list_delivers_nothing) auto
  with run show ?thesis by blast
qed

end
