(* ===== verification/Blockchain.thy ===== *)
theory Blockchain
  imports Data Bignum
begin

text \<open>
  \<^verbatim>\<open>src/include/blockchain.h\<close>, \<^verbatim>\<open>src/src/blockchain.c\<close>: the target of the next block.

  The conversions between a target and its 32-byte form, \<^verbatim>\<open>uint_to_bytes\<close> and \<^verbatim>\<open>block_get_uint\<close> are called but not
  defined in the repository; they are the fields of a record. \<open>junk\<close> gives the contents of a new area of a given size and
  \<open>curr_time\<close> is what \<^verbatim>\<open>get_curr_time\<close> returns. Freeing the areas at the end is left out.
\<close>

record target_ext =
  target_to_etarget :: "uint \<Rightarrow> bytes \<Rightarrow> bytes"
  etarget_to_target :: "bytes \<Rightarrow> uint"
  uint_to_bytes :: "uint \<Rightarrow> bytes \<Rightarrow> bytes"
  block_get_uint :: "bytes \<Rightarrow> nat \<Rightarrow> uint"

text \<open>The time since the recalculation block, kept between the two bounds.\<close>

definition clamp_diff :: "uint \<Rightarrow> uint" where
  "clamp_diff diff =
     (if diff > SECONDS_IN_8_WEEKS then SECONDS_IN_8_WEEKS
      else if diff < SECONDS_IN_HALF_WEEK then SECONDS_IN_HALF_WEEK
      else diff)"

text \<open>The branch that recalculates the target.\<close>

definition recalc_target ::
  "endian \<Rightarrow> target_ext \<Rightarrow> (nat \<Rightarrow> bytes) \<Rightarrow> 'd bdb \<Rightarrow> 'd dbs \<Rightarrow> uint \<Rightarrow> uint \<Rightarrow> uint \<Rightarrow> uint res" where
  "recalc_target e T junk B dbs block_time block_height block_target =
     (let recalc_block_hash = snd (data_chain_get e B dbs (block_height - RECALC_TARGET_INTERVAL) (junk SIZE_SHA256));
          recalc_block = snd (data_blocks_get_header B dbs recalc_block_hash (junk SIZE_BLOCK_HEADER));
          recalc_block_time = block_get_uint T recalc_block POS_BLOCK_TIME;
          diff = clamp_diff (block_time - recalc_block_time);
          etarget = target_to_etarget T block_target (junk SIZE_SHA256);
          big_diff = uint_to_bytes T diff (junk SIZE_SHA256);
          divisor = uint_to_bytes T 2 (junk 4);
          buffer1 = junk (SIZE_SHA256 + 4);
          buffer2 = junk (SIZE_SHA256 + 4)
      in rbind (big_mult etarget SIZE_SHA256 big_diff SIZE_SHA256 buffer1) (\<lambda>buffer1.
         rbind (big_div buffer1 divisor buffer2) (\<lambda>buffer2.
         rbind (memset buffer1 0 0xFF SIZE_SHA256) (\<lambda>buffer1.
         rbind (big_compare buffer2 buffer1 SIZE_SHA256) (\<lambda>cmp.
         Inr (if cmp > 0 then etarget_to_target T buffer1 else etarget_to_target T buffer2))))))"

definition compute_next_target ::
  "endian \<Rightarrow> target_ext \<Rightarrow> (nat \<Rightarrow> bytes) \<Rightarrow> uint \<Rightarrow> 'd bdb \<Rightarrow> 'd dbs \<Rightarrow> bytes \<Rightarrow> uint res" where
  "compute_next_target e T junk curr_time B dbs block_hash =
     (let block = snd (data_blocks_get_header B dbs block_hash (junk SIZE_BLOCK_HEADER)) in
      rbind (btoui e block POS_BLOCK_TIME) (\<lambda>block_time.
      rbind (btoui e block POS_BLOCK_HEIGHT) (\<lambda>block_height.
      rbind (btoui e block POS_BLOCK_TARGET) (\<lambda>block_target.
      if curr_time < TESTNET_EPOCH \<and> curr_time - block_time \<ge> SECONDS_IN_20_MINUTES then Inr 0
      else if block_height > 0 \<and> block_height mod RECALC_TARGET_INTERVAL = 0 then
        recalc_target e T junk B dbs block_time block_height block_target
      else Inr block_target))))"

subsection \<open>Properties\<close>

lemma big_mult_short: "length res < a_bytes + b_bytes \<Longrightarrow> big_mult a a_bytes b b_bytes res = Inl OutOfBounds"
  by (simp add: big_mult_def mem_simps)

lemma recalc_target_faults: "length (junk 36) = 36 \<Longrightarrow> recalc_target e T junk B dbs t h g = Inl OutOfBounds"
  by (simp add: recalc_target_def Let_def big_mult_short)


definition some_target_ext :: target_ext where
  "some_target_ext = \<lparr>target_to_etarget = (\<lambda>_ b. b), etarget_to_target = (\<lambda>_. 0), uint_to_bytes = (\<lambda>_ b. b),
     block_get_uint = (\<lambda>_ _. 0)\<rparr>"

definition block_at_144 :: bytes where
  "block_at_144 = replicate 9 0 @ [144] @ replicate 73 0"

definition header_bdb :: "bytes bdb" where
  "header_bdb = \<lparr>b_put = (\<lambda>db k v. (0, db)), b_get = (\<lambda>db k dat. (0, dat\<lparr>data_d := db\<rparr>)), b_exists = (\<lambda>db k. 0),
     b_scan = (\<lambda>db. (0, []))\<rparr>"

definition header_dbs :: "bytes dbs" where
  "header_dbs = \<lparr>blocks_db = block_at_144, chain_db = [], limbo_db = [], txs_db = [], nodes_db = [],
     mempool_d = \<lparr>slots = [], count_m = 0\<rparr>\<rparr>"


text \<open>
  The bounds on the time difference used for a new target, \<^verbatim>\<open>SECONDS_IN_HALF_WEEK\<close> and \<^verbatim>\<open>SECONDS_IN_8_WEEKS\<close>, are
  in minutes: whatever the difference in seconds between two blocks, what is used is between 5040 and 80640, a 60th of half a week and
  of eight weeks in seconds; a chain that takes exactly one day for 144 blocks is counted at the upper bound.
\<close>

lemma clamp_diff_bounds:
  "unat (clamp_diff diff) = max 5040 (min 80640 (unat diff))
   \<and> 60 * unat SECONDS_IN_HALF_WEEK = 7 * 24 * 60 * 60 div 2 \<and> 60 * unat SECONDS_IN_8_WEEKS = 8 * 7 * 24 * 60 * 60
   \<and> clamp_diff (24 * 60 * 60) = SECONDS_IN_8_WEEKS"
  by (auto simp: clamp_diff_def word_less_nat_alt)

end
