(* ===== verification/Mine.thy ===== *)
theory Mine
  imports Blocks
begin

text \<open>
  \<^verbatim>\<open>src/src/mine/mine.c\<close>: the search for a nonce, and the start of the program.

  The clock is an argument: \<open>clock k\<close> is what the \<open>k\<close>-th call of \<^verbatim>\<open>get_curr_time\<close> in \<^verbatim>\<open>mine\<close> returns.
  \<^verbatim>\<open>is_valid_blockhash\<close> is not defined in the repository and is an argument. \<^verbatim>\<open>succeed\<close> only prints, so finding
  a block is the result \<open>Some hash\<close>. The main loop of \<^verbatim>\<open>main\<close> is in theory \<open>Miner\<close>.
\<close>

subsection \<open>Definitions\<close>

partial_function (option) mine_loop ::
  "endian \<Rightarrow> (bytes \<Rightarrow> uchar \<Rightarrow> bool) \<Rightarrow> uchar \<Rightarrow> uint \<Rightarrow> (nat \<Rightarrow> uint) \<Rightarrow> nat \<Rightarrow> sha256_ctx \<Rightarrow> bytes \<Rightarrow> bytes
   \<Rightarrow> (bytes option \<times> bytes) res option" where
  "mine_loop e is_valid_blockhash target time_end clock k ctx hash workblock =
     (if clock k < time_end then
        (case sha256_run ctx [(workblock, 0, SIZE_BLOCK_HEADER)] hash of
           Inl err \<Rightarrow> Some (Inl err)
         | Inr (ctx, hash) \<Rightarrow>
             if hash ! 0 = 0 \<and> is_valid_blockhash hash target then Some (Inr (Some hash, workblock))
             else
               (case block_inc_nonce e workblock of
                  Inl err \<Rightarrow> Some (Inl err)
                | Inr workblock \<Rightarrow>
                    mine_loop e is_valid_blockhash target time_end clock (k + 1) ctx hash workblock))
      else Some (Inr (None, workblock)))"

declare mine_loop.simps [code]

text \<open>\<open>ctx\<close> and \<open>hash\<close> are the two areas as allocated.\<close>

definition mine ::
  "endian \<Rightarrow> (bytes \<Rightarrow> uchar \<Rightarrow> bool) \<Rightarrow> (nat \<Rightarrow> uint) \<Rightarrow> sha256_ctx \<Rightarrow> bytes \<Rightarrow> bytes \<Rightarrow> uchar \<Rightarrow> uint
   \<Rightarrow> (bytes option \<times> bytes) res option" where
  "mine e is_valid_blockhash clock ctx hash workblock target mtime =
     (let time_end = clock 0 + mtime in
      mine_loop e is_valid_blockhash target time_end clock 1 ctx hash workblock)"

text \<open>
  The start of \<^verbatim>\<open>main\<close>: the checks on the arguments and the conversion of the miner address. \<open>arg\<close> is
  \<^verbatim>\<open>argv[1]\<close> without its terminating zero, \<open>junk\<close> the 32 bytes of the array \<^verbatim>\<open>miner_addr\<close>. The call is
  \<^verbatim>\<open>hexstr_to_bytes(argv[1], miner_addr, SIZE_SHA256)\<close>, destination first.
\<close>

definition main_args :: "nat \<Rightarrow> bytes \<Rightarrow> bytes \<Rightarrow> (bytes \<times> bytes) res" where
  "main_args argc arg junk =
     (if argc = 1 then Inl (Fatal ''Usage: %s <miner address>'')
      else if length arg \<noteq> 128 then Inl (Fatal ''Miner address must be 128 hexadecimal digits'')
      else rbind (hexstr_to_bytes (arg @ [0]) junk SIZE_SHA256) (\<lambda>arg. Inr (arg, junk)))"

subsection \<open>The search\<close>

text \<open>The work block after some increments of the nonce, and whether its hash ends the search.\<close>

definition trial :: "endian \<Rightarrow> bytes \<Rightarrow> nat \<Rightarrow> bytes" where
  "trial e block j = (case inc_nonce_times e j block of Inr b \<Rightarrow> b | Inl _ \<Rightarrow> block)"

definition wins :: "(bytes \<Rightarrow> uchar \<Rightarrow> bool) \<Rightarrow> uchar \<Rightarrow> bytes \<Rightarrow> bool" where
  "wins valid target block \<longleftrightarrow> digest (take 83 block) ! 0 = 0 \<and> valid (digest (take 83 block)) target"

lemma block_inc_nonce_total:
  assumes "83 \<le> length block"
  shows "\<exists>b. block_inc_nonce e block = Inr b \<and> length b = length block"
  using assms by (simp add: block_inc_nonce_def btoui_ok uitob_ok mem_simps)

lemma inc_nonce_times_total: "83 \<le> length block \<Longrightarrow> \<exists>b. inc_nonce_times e j block = Inr b \<and> length b = length block"
proof (induction j)
  case (Suc j)
  then obtain b where "inc_nonce_times e j block = Inr b" "length b = length block" by auto
  with block_inc_nonce_total [of b e] Suc.prems show ?case by auto
qed simp

lemma inc_nonce_times_shift:
  "block_inc_nonce e block = Inr b \<Longrightarrow> inc_nonce_times e (Suc j) block = inc_nonce_times e j b"
  by (induction j) auto

lemma trial_Suc: "83 \<le> length block \<Longrightarrow> block_inc_nonce e block = Inr b \<Longrightarrow> length b = length block \<Longrightarrow> trial e block (Suc j) = trial e b j"
  using inc_nonce_times_shift [of e block b j] inc_nonce_times_total [of b e j] by (auto simp: trial_def)

lemma mine_loop_step:
  assumes "83 \<le> length block" "length (data_c ctx) = 64" "length hash = 32" "clock k < time_end"
  shows "\<exists>ctx' b. length (data_c ctx') = 64 \<and> block_inc_nonce e block = Inr b \<and> length b = length block
    \<and> mine_loop e valid target time_end clock k ctx hash block =
      (if wins valid target block then Some (Inr (Some (digest (take 83 block)), block))
       else mine_loop e valid target time_end clock (k + 1) ctx' (digest (take 83 block)) b)"
proof -
  obtain b where b: "block_inc_nonce e block = Inr b" "length b = length block"
    using block_inc_nonce_total [OF assms(1)] by blast
  have "message [(block, 0, 83)] = take 83 block" by (simp add: segment_def)
  then obtain ctx' where c: "sha256_run ctx [(block, 0, 83)] hash = Inr (ctx', digest (take 83 block))" "length (data_c ctx') = 64"
    using sha256_run_digest [OF assms(2), of "[(block, 0, 83)]" hash] assms(1,3) by (auto simp: piece_ok_def)
  have "mine_loop e valid target time_end clock k ctx hash block =
      (if wins valid target block then Some (Inr (Some (digest (take 83 block)), block))
       else mine_loop e valid target time_end clock (k + 1) ctx' (digest (take 83 block)) b)"
    using assms(4) b c by (subst mine_loop.simps) (simp add: wins_def)
  with b c show ?thesis by blast
qed

text \<open>The result of a search of at most \<open>n\<close> trials.\<close>

primrec search :: "endian \<Rightarrow> (bytes \<Rightarrow> uchar \<Rightarrow> bool) \<Rightarrow> uchar \<Rightarrow> bytes \<Rightarrow> nat \<Rightarrow> bytes option \<times> bytes" where
  "search e valid target block 0 = (None, block)"
| "search e valid target block (Suc n) =
     (if wins valid target block then (Some (digest (take 83 block)), block)
      else search e valid target (trial e block 1) n)"

lemma mine_loop_search:
  "83 \<le> length block \<Longrightarrow> length (data_c ctx) = 64 \<Longrightarrow> length hash = 32
   \<Longrightarrow> \<forall>i < n. clock (k + i) < time_end \<Longrightarrow> \<not> clock (k + n) < time_end
   \<Longrightarrow> mine_loop e valid target time_end clock k ctx hash block = Some (Inr (search e valid target block n))"
proof (induction n arbitrary: k ctx hash block)
  case 0
  then show ?case by (subst mine_loop.simps) simp
next
  case (Suc n)
  have c: "clock k < time_end" using Suc.prems(4) by force
  obtain ctx' b where s: "length (data_c ctx') = 64" "block_inc_nonce e block = Inr b" "length b = length block"
    "mine_loop e valid target time_end clock k ctx hash block =
      (if wins valid target block then Some (Inr (Some (digest (take 83 block)), block))
       else mine_loop e valid target time_end clock (k + 1) ctx' (digest (take 83 block)) b)"
    using mine_loop_step [of block ctx hash clock k time_end, OF Suc.prems(1-3) c, of e valid target] by blast
  have "\<forall>i < n. clock (k + 1 + i) < time_end" "\<not> clock (k + 1 + n) < time_end"
    using Suc.prems(4,5) by (auto dest: spec [of _ "Suc _"])
  with Suc.IH [of b ctx' "digest (take 83 block)" "k + 1"] Suc.prems(1) s(1,3)
  have "mine_loop e valid target time_end clock (k + 1) ctx' (digest (take 83 block)) b = Some (Inr (search e valid target b n))"
    by (simp add: sha.length_H)
  moreover have "trial e block 1 = b" using s(2) by (simp add: trial_def)
  ultimately show ?case using s(4) by simp
qed

lemma find_map: "find P (map f xs) = map_option f (find (P \<circ> f) xs)"
  by (induction xs) auto

lemma search_trials:
  "83 \<le> length block \<Longrightarrow> search e valid target block n =
    (case find (\<lambda>j. wins valid target (trial e block j)) [0..<n] of
       Some j \<Rightarrow> (Some (digest (take 83 (trial e block j))), trial e block j)
     | None \<Rightarrow> (None, trial e block n))"
proof (induction n arbitrary: block)
  case 0
  then show ?case by (simp add: trial_def)
next
  case (Suc n)
  obtain b where b: "block_inc_nonce e block = Inr b" "length b = length block"
    using block_inc_nonce_total [OF Suc.prems] by blast
  have t: "trial e block 0 = block" "trial e block 1 = b" using b by (simp_all add: trial_def)
  have tS: "trial e block (Suc j) = trial e b j" for j by (rule trial_Suc [OF Suc.prems b])
  have "[0..<Suc n] = 0 # map Suc [0..<n]" by (simp add: map_Suc_upt upt_conv_Cons del: upt_Suc)
  then have f: "find (\<lambda>j. wins valid target (trial e block j)) [0..<Suc n] =
      (if wins valid target block then Some 0 else map_option Suc (find (\<lambda>j. wins valid target (trial e b j)) [0..<n]))"
    using t tS by (simp add: find_map comp_def)
  show ?case
    using Suc.IH [of b] Suc.prems b t unfolding f by (auto simp: tS split: option.splits)
qed

text \<open>
  C19. The search ends and finds the first winner. If the clock stays before \<^verbatim>\<open>time_end\<close> for exactly \<open>n\<close> readings, then \<^verbatim>\<open>mine\<close>
  returns after at most \<open>n\<close> trials, without a fault: with the hash and the work block of the first of the \<open>n\<close> nonces whose hash starts with
  a zero byte and is valid for the target, or, if there is none, with the work block after \<open>n\<close> increments. (\<^verbatim>\<open>time_end\<close> is a 32-bit
  sum: when it wraps around, \<open>n\<close> is 0 and nothing is tried.)
\<close>

theorem mine_finds_first:
  assumes "SIZE_BLOCK_HEADER \<le> length workblock" "length (data_c ctx) = 64" "length hash = 32"
    and "\<forall>i < n. clock (1 + i) < clock 0 + mtime" "\<not> clock (1 + n) < clock 0 + mtime"
  shows "mine e is_valid_blockhash clock ctx hash workblock target mtime =
    Some (Inr (case find (\<lambda>j. wins is_valid_blockhash target (trial e workblock j)) [0..<n] of
       Some j \<Rightarrow> (Some (digest (take SIZE_BLOCK_HEADER (trial e workblock j))), trial e workblock j)
     | None \<Rightarrow> (None, trial e workblock n)))"
  using mine_loop_search [OF assms(1-3), of n clock 1 "clock 0 + mtime" e is_valid_blockhash target] assms(4,5)
    search_trials [OF assms(1), of e is_valid_blockhash target n]
  by (simp add: mine_def Let_def)

theorem mine_finds_first_witness:
  "mine Big (\<lambda>_ _. False) (\<lambda>k. if k < 2 then 100 else 200) some_ctx (replicate 32 0) (replicate 83 0) 1 50
   = Some (Inr (None, trial Big (replicate 83 0) 1))"
  using mine_finds_first [of "replicate 83 0" some_ctx "replicate 32 0" 1 "\<lambda>k. if k < 2 then 100 else 200" 50 Big "\<lambda>_ _. False" 1]
  by (simp add: some_ctx_def wins_def)

lemma hexstr_loop_short:
  "even (length str) \<Longrightarrow> 2 * byte_pos \<le> length str \<Longrightarrow> length str < 2 * (byte_pos + n) \<Longrightarrow> byte_pos + n \<le> length ba
   \<Longrightarrow> hexstr_to_bytes_loop n byte_pos (2 * byte_pos) ba str = Inl OutOfBounds"
proof (induction n arbitrary: byte_pos ba)
  case (Suc n)
  show ?case
  proof (cases "2 * byte_pos < length str")
    case True
    then have "2 * byte_pos + 1 < length str" using Suc.prems(1) by presburger
    with True Suc.prems Suc.IH [of "Suc byte_pos"] show ?thesis by simp
  next
    case False
    then show ?thesis by simp
  qed
qed simp

text \<open>
  The miner never gets past its arguments. Whatever the address given, \<^verbatim>\<open>main\<close> ends with one of its two
  messages or faults: the arguments of \<^verbatim>\<open>hexstr_to_bytes\<close> are exchanged, and it reads 64 characters from the 32 bytes of
  \<^verbatim>\<open>miner_addr\<close> while overwriting \<^verbatim>\<open>argv[1]\<close>.
\<close>

lemma main_args_never_pass:
  assumes "length junk = SIZE_SHA256"
  shows "main_args argc arg junk =
    (if argc = 1 then Inl (Fatal ''Usage: %s <miner address>'')
     else if length arg \<noteq> 128 then Inl (Fatal ''Miner address must be 128 hexadecimal digits'')
     else Inl OutOfBounds)"
  using hexstr_loop_short [of junk 0 32 "arg @ [0]"] assms by (simp add: main_args_def hexstr_to_bytes_def)

lemma main_args_never_pass_witness: "main_args 2 (replicate 128 48) (replicate 32 0) = Inl OutOfBounds"
  using main_args_never_pass [of "replicate 32 0" 2 "replicate 128 48"] by simp

end
