(* ===== verification/Limbo.thy ===== *)
theory Limbo
  imports Build
begin

text \<open>
  The functions of \<^verbatim>\<open>src/src/data.c\<close> that work on several databases: \<^verbatim>\<open>data_blocks_revert\<close>, which switches to
  another branch of the chain, and \<^verbatim>\<open>data_limbo_scan\<close>, which looks for such a branch among the blocks in limbo.

  What the two rely on and the repository does not define is in a record \<open>env\<close>. The calls in the source that leave out arguments are read with the
  arguments of the declarations: \<^verbatim>\<open>data_chain_get(i, curr_block_hash)\<close>, \<^verbatim>\<open>data_mempool_del(tx_hash)\<close> and
  \<^verbatim>\<open>data_chain_get_height()\<close> with the databases; the block hash that \<^verbatim>\<open>data_txs_add(dbs, tx_hash)\<close> lacks is a field.
  \<^verbatim>\<open>data_build_block_list\<close> is \<^verbatim>\<open>build_block_list\<close>.
\<close>

subsection \<open>Surroundings\<close>

text \<open>
  \<^verbatim>\<open>data_limbo_scan_can_trace_back\<close> has an empty body: it leaves \<^verbatim>\<open>end_hash\<close> as it is, and the value its caller reads is a field.
  \<open>limbo_prev\<close> is what the cursor delivers: the code of its creation, and the key and the buffer of each successful
  \<^verbatim>\<open>DB_PREV\<close>.
\<close>

record 'd env =
  host :: endian
  bdb_e :: "'d bdb"
  ext_e :: ext
  junk_e :: "nat \<Rightarrow> bytes"
  junk_highest :: uint
  object_e :: "m_tx \<Rightarrow> bytes"
  hash_e :: bytes
  block_hash_e :: bytes
  LIMBO_MAX_LEVEL_SIZE :: uint
  db_set :: "'d \<Rightarrow> dbt \<Rightarrow> dbt \<Rightarrow> int \<times> 'd"
  data_txs_del :: "'d \<Rightarrow> bytes \<Rightarrow> 'd"
  block_get_prev_hash :: "bytes \<Rightarrow> bytes \<Rightarrow> bytes"
  array_get :: "c_array \<Rightarrow> bytes \<Rightarrow> nat \<Rightarrow> bytes"
  can_trace_back :: "'d dbs \<Rightarrow> bytes \<Rightarrow> int"
  is_valid_chain :: "'d dbs \<Rightarrow> bytes \<Rightarrow> bytes \<Rightarrow> int"
  limbo_prev :: "'d \<Rightarrow> int \<times> (uint \<times> bytes) list"

text \<open>The calls of the previous theories in these surroundings.\<close>

definition chain_get :: "'d env \<Rightarrow> 'd dbs \<Rightarrow> uint \<Rightarrow> bytes \<Rightarrow> int \<times> bytes" where
  "chain_get E = data_chain_get (host E) (bdb_e E)"

definition chain_get_height :: "'d env \<Rightarrow> 'd dbs \<Rightarrow> uint res" where
  "chain_get_height E = data_chain_get_height (junk_highest E) (bdb_e E) (ext_e E)"

definition chain_safe_set :: "'d env \<Rightarrow> 'd dbs \<Rightarrow> bytes \<Rightarrow> 'd dbs" where
  "chain_safe_set E = data_chain_safe_set (db_set E) (host E) (junk_e E SIZE_BLOCK_HEADER) (bdb_e E) (ext_e E)"

subsection \<open>Switching branches\<close>

text \<open>The transactions of an old block go back to the pool. First argument: \<^verbatim>\<open>tx_count - i\<close>.\<close>

primrec old_txs_loop :: "nat \<Rightarrow> 'd env \<Rightarrow> bytes \<Rightarrow> uint \<Rightarrow> 'd dbs \<Rightarrow> 'd dbs res" where
  "old_txs_loop 0 E curr_block cursor dbs = Inr dbs"
| "old_txs_loop (Suc n) E curr_block cursor dbs =
     (let tx = drop (unat cursor) curr_block;
          dbs = dbs\<lparr>txs_db := data_txs_del E (txs_db dbs) (tx_compute_hash (ext_e E) tx)\<rparr>
      in rbind (data_mempool_add (junk_e E) (ext_e E) (hash_e E) dbs tx) (\<lambda>dbs.
         old_txs_loop n E curr_block (cursor + tx_get_size (ext_e E) tx) dbs))"

text \<open>
  The loop over the old blocks, first argument the iterations left, \<^verbatim>\<open>i\<close> the height. Its result is the code (not 0: the function has
  returned it), the databases and the block buffer.
\<close>

primrec old_blocks_loop :: "nat \<Rightarrow> uint \<Rightarrow> 'd env \<Rightarrow> bytes \<Rightarrow> bytes \<Rightarrow> 'd dbs \<Rightarrow> (int \<times> 'd dbs \<times> bytes) res" where
  "old_blocks_loop 0 i E curr_block_hash curr_block dbs = Inr (0, dbs, curr_block)"
| "old_blocks_loop (Suc n) i E curr_block_hash curr_block dbs =
     (let curr_block_hash = snd (chain_get E dbs i curr_block_hash);
          (ret, curr_block) = data_blocks_get (bdb_e E) dbs curr_block_hash curr_block
      in if ret \<noteq> 0 then Inr (ret, dbs, curr_block)
         else
           rbind (old_txs_loop (unat (block_get_tx_count (ext_e E) curr_block)) E curr_block (word_of_nat SIZE_BLOCK_HEADER) dbs) (\<lambda>dbs.
           rbind (data_limbo_safe_add (LIMBO_MAX_LEVEL_SIZE E) (junk_e E) (bdb_e E) (ext_e E) dbs curr_block) (\<lambda>dbs.
           old_blocks_loop n (i - 1) E curr_block_hash curr_block dbs)))"

text \<open>The transactions of a new block leave the pool.\<close>

primrec new_txs_loop :: "nat \<Rightarrow> 'd env \<Rightarrow> bytes \<Rightarrow> uint \<Rightarrow> 'd dbs \<Rightarrow> 'd dbs res" where
  "new_txs_loop 0 E curr_block cursor dbs = Inr dbs"
| "new_txs_loop (Suc n) E curr_block cursor dbs =
     (let tx = drop (unat cursor) curr_block;
          tx_hash = tx_compute_hash (ext_e E) tx;
          dbs = data_txs_add (bdb_e E) dbs tx_hash (block_hash_e E)
      in rbind (data_mempool_del (object_e E) dbs tx_hash) (\<lambda>(removed, dbs).
         new_txs_loop n E curr_block (cursor + tx_get_size (ext_e E) tx) dbs))"

text \<open>One pass of the loop over the new blocks, after the check of the height.\<close>

definition new_block_step :: "'d env \<Rightarrow> bytes \<Rightarrow> 'd dbs \<Rightarrow> 'd dbs res" where
  "new_block_step E curr_block dbs =
     rbind (new_txs_loop (unat (block_get_tx_count (ext_e E) curr_block)) E curr_block (word_of_nat SIZE_BLOCK_HEADER) dbs) (\<lambda>dbs.
     rbind (data_limbo_del (LIMBO_MAX_LEVEL_SIZE E) (junk_e E) (bdb_e E) (ext_e E) dbs curr_block) (\<lambda>dbs.
     Inr (chain_safe_set E dbs curr_block)))"

text \<open>
  The loop over the new blocks, which ends only at a block of the common height. The code of \<^verbatim>\<open>data_blocks_get\<close> is not kept: the
  check after the call tests \<^verbatim>\<open>ret\<close>, which is still 0 from before the loop.
\<close>

partial_function (option) new_blocks_loop :: "'d env \<Rightarrow> uint \<Rightarrow> bytes \<Rightarrow> bytes \<Rightarrow> 'd dbs \<Rightarrow> 'd dbs res option" where
  "new_blocks_loop E common_block_height curr_block_hash curr_block dbs =
     (let curr_block = snd (data_blocks_get (bdb_e E) dbs curr_block_hash curr_block) in
      if block_get_height (ext_e E) curr_block = common_block_height then Some (Inr dbs)
      else
        (case new_block_step E curr_block dbs of
           Inl err \<Rightarrow> Some (Inl err)
         | Inr dbs \<Rightarrow>
             new_blocks_loop E common_block_height (block_get_prev_hash E curr_block curr_block_hash) curr_block dbs))"

declare new_blocks_loop.simps [code]

text \<open>
  \<^verbatim>\<open>data_blocks_revert\<close>: the code it returns, or \<open>None\<close> when it reaches its end, where there is no \<^verbatim>\<open>return\<close>.
\<close>

definition data_blocks_revert :: "'d env \<Rightarrow> 'd dbs \<Rightarrow> bytes \<Rightarrow> bytes \<Rightarrow> (int option \<times> 'd dbs) res option" where
  "data_blocks_revert E dbs common_block_hash new_latest_block_hash =
     (case chain_get_height E dbs of
        Inl err \<Rightarrow> Some (Inl err)
      | Inr initial_height \<Rightarrow>
          (case data_blocks_get_header (bdb_e E) dbs common_block_hash (junk_e E SIZE_BLOCK_HEADER) of (ret, common_block) \<Rightarrow>
             if ret \<noteq> 0 then Some (Inr (Some ret, dbs))
             else
               let common_block_height = block_get_height (ext_e E) common_block;
                   n = (if initial_height > common_block_height then unat (initial_height - common_block_height) else 0)
               in case old_blocks_loop n initial_height E (junk_e E SIZE_SHA256) (junk_e E (unat MAX_BLOCK_SIZE)) dbs of
                    Inl err \<Rightarrow> Some (Inl err)
                  | Inr (ret, dbs, curr_block) \<Rightarrow>
                      if ret \<noteq> 0 then Some (Inr (Some ret, dbs))
                      else
                        (case mem_read new_latest_block_hash 0 SIZE_SHA256 of
                           Inl err \<Rightarrow> Some (Inl err)
                         | Inr curr_block_hash \<Rightarrow>
                             map_option (\<lambda>r. rbind r (\<lambda>dbs. Inr (None, dbs)))
                               (new_blocks_loop E common_block_height curr_block_hash curr_block dbs))))"

subsection \<open>Scanning limbo\<close>

text \<open>What the scan tells the peers: an inventory or a request, with the kind of data, the hashes and their number.\<close>

datatype announcement = Msgall_inv uchar bytes uint | Msgall_getdata uchar bytes uint

text \<open>
  One hash of a level. The state is the flag \<^verbatim>\<open>already_swapped\<close>, the databases and the announcements so far. In the source the
  \<^verbatim>\<open>else\<close> is indented under the outer \<^verbatim>\<open>if\<close> and belongs to the inner one. The new latest hash is passed as the common block of
  \<^verbatim>\<open>data_blocks_revert\<close> and the end of the trace as the new latest block.
\<close>

definition scan_hash ::
  "'d env \<Rightarrow> uint \<Rightarrow> uint \<Rightarrow> bytes \<Rightarrow> bytes \<Rightarrow> bool \<times> 'd dbs \<times> announcement list \<Rightarrow> (bool \<times> 'd dbs \<times> announcement list) res" where
  "scan_hash E index curr_height hash end_hash_buffer = (\<lambda>(already_swapped, dbs, out).
     if can_trace_back E dbs hash \<noteq> 0 then
       if \<not> already_swapped \<and> is_valid_chain E dbs hash end_hash_buffer \<noteq> 0 then
         rbind (case data_blocks_revert E dbs hash end_hash_buffer of None \<Rightarrow> Inl Diverges | Some r \<Rightarrow> r) (\<lambda>(ret, dbs).
         let block_list_count = index - curr_height;
             block_list = junk_e E (unat (block_list_count * word_of_nat SIZE_SHA256))
         in rbind (build_block_list (host E) (junk_e E) (junk_highest E) (bdb_e E) (ext_e E) dbs hash (ucast block_list_count) block_list)
              (\<lambda>(n, block_list). Inr (True, dbs, out @ [Msgall_inv DTYPE_BLOCK block_list block_list_count])))
       else Inr (already_swapped, dbs, out @ [Msgall_getdata DTYPE_BLOCK end_hash_buffer 1])
     else Inr (already_swapped, dbs, out))"

text \<open>The hashes of a level, first argument \<^verbatim>\<open>arr.length - i\<close>, and the levels from the highest down.\<close>

primrec scan_level_loop ::
  "nat \<Rightarrow> nat \<Rightarrow> 'd env \<Rightarrow> uint \<Rightarrow> uint \<Rightarrow> c_array \<Rightarrow> bytes \<Rightarrow> bytes \<Rightarrow> bool \<times> 'd dbs \<times> announcement list
   \<Rightarrow> (bool \<times> 'd dbs \<times> announcement list) res" where
  "scan_level_loop 0 i E index curr_height arr buf end_hash_buffer s = Inr s"
| "scan_level_loop (Suc n) i E index curr_height arr buf end_hash_buffer s =
     rbind (scan_hash E index curr_height (array_get E arr buf i) end_hash_buffer s)
       (scan_level_loop n (i + 1) E index curr_height arr buf end_hash_buffer)"

primrec scan_levels_loop ::
  "(uint \<times> bytes) list \<Rightarrow> 'd env \<Rightarrow> uint \<Rightarrow> bytes \<Rightarrow> bool \<times> 'd dbs \<times> announcement list
   \<Rightarrow> (bool \<times> 'd dbs \<times> announcement list) res" where
  "scan_levels_loop [] E curr_height end_hash_buffer s = Inr s"
| "scan_levels_loop (l # ls) E curr_height end_hash_buffer s =
     (case l of (index, buf) \<Rightarrow>
        if index \<le> curr_height then Inr s
        else
          let arr = array_init 4 (word_of_nat SIZE_SHA256) (bytes_to_uint (ext_e E) buf) (LIMBO_MAX_LEVEL_SIZE E) in
          rbind (scan_level_loop (unat (length_f arr)) 0 E index curr_height arr buf end_hash_buffer s)
            (scan_levels_loop ls E curr_height end_hash_buffer))"

definition data_limbo_scan :: "'d env \<Rightarrow> 'd dbs \<Rightarrow> ('d dbs \<times> announcement list) res" where
  "data_limbo_scan E dbs =
     rbind (chain_get_height E dbs) (\<lambda>curr_height.
     case limbo_prev E (limbo_db dbs) of (ret, levels) \<Rightarrow>
       if ret \<noteq> 0 then Inl (Fatal ''failed to init cursor in limbo_scan'')
       else
         rbind (scan_levels_loop levels E curr_height (junk_e E SIZE_SHA256) (False, dbs, [])) (\<lambda>(already_swapped, dbs, out).
         Inr (dbs, out)))"

subsection \<open>The blocks stay where they are\<close>

text \<open>No operation of a switch writes to the database of blocks.\<close>

lemma data_mempool_add_blocks_db: "data_mempool_add junk X h dbs d = Inr dbs' \<Longrightarrow> blocks_db dbs' = blocks_db dbs"
  by (auto simp: data_mempool_add_def Let_def res_simps split: if_splits)

lemma data_mempool_del_blocks_db: "data_mempool_del obj dbs h = Inr (r, dbs') \<Longrightarrow> blocks_db dbs' = blocks_db dbs"
  by (auto simp: data_mempool_del_def Let_def res_simps)

lemma limbo_update_blocks_db: "limbo_update op m junk B X dbs b = Inr dbs' \<Longrightarrow> blocks_db dbs' = blocks_db dbs"
  by (auto simp: limbo_update_def Let_def rbind_eq_Inr split_beta)

lemma data_txs_add_blocks_db: "blocks_db (data_txs_add B dbs h bh) = blocks_db dbs"
  by (simp add: data_txs_add_def Let_def split: prod.split)

lemma chain_safe_set_blocks_db: "blocks_db (chain_safe_set E dbs b) = blocks_db dbs"
  by (simp add: chain_safe_set_def data_chain_safe_set_def Let_def split: prod.split)

lemmas blocks_db_kept = data_mempool_add_blocks_db data_mempool_del_blocks_db limbo_update_blocks_db

lemma old_txs_loop_blocks_db: "old_txs_loop n E b c dbs = Inr dbs' \<Longrightarrow> blocks_db dbs' = blocks_db dbs"
  by (induction n arbitrary: c dbs) (auto simp: Let_def res_simps dest!: data_mempool_add_blocks_db)

lemma new_txs_loop_blocks_db: "new_txs_loop n E b c dbs = Inr dbs' \<Longrightarrow> blocks_db dbs' = blocks_db dbs"
  by (induction n arbitrary: c dbs) (auto simp: Let_def res_simps data_txs_add_blocks_db dest!: data_mempool_del_blocks_db)

lemma new_block_step_blocks_db: "new_block_step E b dbs = Inr dbs' \<Longrightarrow> blocks_db dbs' = blocks_db dbs"
  by (auto simp: new_block_step_def res_simps data_limbo_del_def chain_safe_set_blocks_db
      dest!: new_txs_loop_blocks_db limbo_update_blocks_db)

text \<open>A database of blocks in which every lookup succeeds and delivers nothing.\<close>

definition hollow :: "'d bdb \<Rightarrow> 'd dbs \<Rightarrow> bool" where
  "hollow B dbs \<longleftrightarrow> (\<forall>hash dest. data_blocks_get B dbs hash dest = (0, dest)) \<and>
     (\<forall>hash dest. data_blocks_get_header B dbs hash dest = (0, dest))"

lemma hollow_cong: "blocks_db dbs' = blocks_db dbs \<Longrightarrow> hollow B dbs' = hollow B dbs"
  by (simp add: hollow_def data_blocks_get_def data_blocks_get_header_def)

lemma hollow_get [simp]: "hollow B dbs \<Longrightarrow> data_blocks_get B dbs hash dest = (0, dest)"
  "hollow B dbs \<Longrightarrow> data_blocks_get_header B dbs hash dest = (0, dest)"
  by (simp_all add: hollow_def)

lemma old_blocks_loop_hollow:
  "hollow (bdb_e E) dbs \<Longrightarrow> old_blocks_loop n i E ch cb dbs = Inr (ret, dbs', cb')
   \<Longrightarrow> ret = 0 \<and> cb' = cb \<and> hollow (bdb_e E) dbs'"
proof (induction n arbitrary: i ch dbs)
  case (Suc n)
  then obtain d1 d2 where
    "old_txs_loop (unat (block_get_tx_count (ext_e E) cb)) E cb (word_of_nat SIZE_BLOCK_HEADER) dbs = Inr d1"
    "data_limbo_safe_add (LIMBO_MAX_LEVEL_SIZE E) (junk_e E) (bdb_e E) (ext_e E) d1 cb = Inr d2"
    and rest: "old_blocks_loop n (i - 1) E (snd (chain_get E dbs i ch)) cb d2 = Inr (ret, dbs', cb')"
    by (simp add: Let_def rbind_eq_Inr) blast
  then have "blocks_db d2 = blocks_db dbs"
    by (auto simp: data_limbo_safe_add_def dest!: old_txs_loop_blocks_db limbo_update_blocks_db)
  with Suc.prems(1) have "hollow (bdb_e E) d2" by (metis hollow_cong)
  from Suc.IH [OF this rest] show ?case .
qed auto

lemma new_blocks_loop_hollow:
  "new_blocks_loop E ch h cb dbs = Some r \<Longrightarrow> hollow (bdb_e E) dbs \<Longrightarrow> block_get_height (ext_e E) cb \<noteq> ch \<Longrightarrow> isl r"
proof (induction rule: new_blocks_loop.raw_induct [rotated 1, consumes 1])
  case (1 loop E ch h cb dbs r)
  show ?case
  proof (cases "new_block_step E cb dbs")
    case (Inl err)
    with 1 show ?thesis by (simp add: Let_def) (metis sum.disc(1))
  next
    case (Inr d)
    then have "hollow (bdb_e E) d" using 1(3) by (metis hollow_cong new_block_step_blocks_db)
    with 1 Inr show ?thesis by (simp add: Let_def)
  qed
qed

text \<open>After any stored block the database is hollow, since every key and every value is empty.\<close>

lemma data_blocks_add_hollow:
  assumes "bdb_documented B" "\<forall>db k v. fst (b_put B db k v) = 0"
  shows "hollow B (data_blocks_add base B X dbs block)"
  by (simp add: hollow_def blocks_add_empties [OF assms])

lemma data_blocks_revert_hollow:
  assumes run: "data_blocks_revert E dbs common_hash latest_hash = Some (Inr r)" and hol: "hollow (bdb_e E) dbs"
  shows "\<exists>h d x. hollow (bdb_e E) d \<and> new_blocks_loop E (block_get_height (ext_e E) (junk_e E SIZE_BLOCK_HEADER)) h
    (junk_e E (unat MAX_BLOCK_SIZE)) d = Some (Inr x)"
proof -
  obtain n i d b ret where
    old: "old_blocks_loop n i E (junk_e E SIZE_SHA256) (junk_e E (unat MAX_BLOCK_SIZE)) dbs = Inr (ret, d, b)"
    and new: "ret = 0 \<Longrightarrow> \<exists>h x. new_blocks_loop E (block_get_height (ext_e E) (junk_e E SIZE_BLOCK_HEADER)) h b d = Some (Inr x)"
    using run hol unfolding data_blocks_revert_def Let_def
    by (simp del: old_blocks_loop.simps add: rbind_eq_Inr split: sum.splits prod.splits if_split_asm) fastforce+
  from old_blocks_loop_hollow [OF hol old] new show ?thesis by blast
qed


text \<open>A program in which every allocated byte is 0 and every header read is its first byte.\<close>

definition some_env :: "(bytes \<times> bytes) list env" where
  "some_env = \<lparr>host = Big, bdb_e = alist_bdb, ext_e = some_ext, junk_e = (\<lambda>n. replicate n 0), junk_highest = 0, object_e = (\<lambda>_. []),
     hash_e = replicate 32 0, block_hash_e = [], LIMBO_MAX_LEVEL_SIZE = 2, db_set = b_put alist_bdb, data_txs_del = (\<lambda>db h. db),
     block_get_prev_hash = (\<lambda>b h. h), array_get = (\<lambda>a buf i. drop (4 + 32 * i) buf), can_trace_back = (\<lambda>dbs h. 1),
     is_valid_chain = (\<lambda>dbs h end_hash. 0), limbo_prev = (\<lambda>db. (0, [(9, replicate 68 0), (8, replicate 68 0)]))\<rparr>"

lemma some_env_documented:
  "bdb_documented (bdb_e some_env)" "\<forall>db k v. fst (b_put (bdb_e some_env) db k v) = 0"
  by (simp_all add: some_env_def alist_bdb_documented) (simp add: alist_bdb_def)

lemma some_height: "block_get_height some_ext (replicate n x) = (if n = 0 then 0 else ucast x)"
  by (cases n) (simp_all add: some_ext_def)


subsection \<open>One switch per scan\<close>

fun is_inv :: "announcement \<Rightarrow> bool" where
  "is_inv (Msgall_inv t hs n) = True"
| "is_inv (Msgall_getdata t hs n) = False"

text \<open>
  The invariant of the scan that started with \<open>dbs0\<close>: at most one inventory, exactly when the flag is set; the databases are
  untouched until then; every request is for the one hash in \<^verbatim>\<open>end_hash_buffer\<close>.
\<close>

definition scan_inv :: "'d dbs \<Rightarrow> bytes \<Rightarrow> bool \<times> 'd dbs \<times> announcement list \<Rightarrow> bool" where
  "scan_inv dbs0 end_hash = (\<lambda>(swapped, dbs, out).
     length (filter is_inv out) = (if swapped then 1 else 0) \<and> (\<not> swapped \<longrightarrow> dbs = dbs0) \<and>
     (\<forall>a \<in> set out. \<not> is_inv a \<longrightarrow> a = Msgall_getdata DTYPE_BLOCK end_hash 1))"

lemma scan_hash_inv:
  "scan_hash E index ch hash end_hash s = Inr s' \<Longrightarrow> scan_inv dbs0 end_hash s \<Longrightarrow> scan_inv dbs0 end_hash s'"
  by (auto simp: scan_hash_def scan_inv_def Let_def rbind_eq_Inr split: if_split_asm prod.splits)

lemma scan_level_loop_inv:
  "scan_level_loop n i E index ch arr buf end_hash s = Inr s' \<Longrightarrow> scan_inv dbs0 end_hash s \<Longrightarrow> scan_inv dbs0 end_hash s'"
  by (induction n arbitrary: i s) (auto simp: rbind_eq_Inr dest: scan_hash_inv)

lemma scan_levels_loop_inv:
  "scan_levels_loop ls E ch end_hash s = Inr s' \<Longrightarrow> scan_inv dbs0 end_hash s \<Longrightarrow> scan_inv dbs0 end_hash s'"
  by (induction ls arbitrary: s)
     (auto simp: rbind_eq_Inr Let_def split: if_split_asm prod.splits dest: scan_level_loop_inv)

lemma scan_level_loop_idle:
  assumes "\<forall>dbs hash. can_trace_back E dbs hash = 0"
  shows "scan_level_loop n i E index ch arr buf end_hash s = Inr s"
  using assms by (induction n arbitrary: i) (auto simp: scan_hash_def split: prod.split)

lemma scan_levels_loop_idle:
  assumes "\<forall>dbs hash. can_trace_back E dbs hash = 0"
  shows "scan_levels_loop ls E ch end_hash s = Inr s"
  using assms by (induction ls) (auto simp: scan_level_loop_idle Let_def split: prod.split)



end
