(* ===== verification/Network.thy ===== *)
theory Network
  imports Limbo
begin

text \<open>
  \<^verbatim>\<open>src/include/network.h\<close>, \<^verbatim>\<open>src/src/network.c\<close>: messages between peers.

  Sockets are outside the model; the mutexes are in theories \<open>Join\<close> and \<open>Locks\<close>. A connection is the databases, the response buffer \<^verbatim>\<open>resp\<close>, the
  known peers and the byte strings handed to \<^verbatim>\<open>sendto\<close> so far. One pass of the loop of \<^verbatim>\<open>handle_connection\<close> is a function
  of the message buffer and the connection. Everything the pass depends on that is not in the repository, or not initialised, is in
  a record \<open>net_env\<close>. In the source \<^verbatim>\<open>CTYPE_TX_POS_BODY\<close> stands for \<^verbatim>\<open>CTYPE_TX_POS_TX\<close> and \<^verbatim>\<open>block[prev_hash]\<close> for the
  field at \<^verbatim>\<open>POS_BLOCK_PREV_HASH\<close>.
\<close>

subsection \<open>State\<close>

record peer =
  port_p :: uint
  addr_len :: uint
  addr_p :: bytes

text \<open>\<open>announced\<close> collects what \<^verbatim>\<open>data_limbo_scan\<close> sends to all peers.\<close>

record 'd conn =
  dbs_c :: "'d dbs"
  resp :: bytes
  sent :: "bytes list"
  announced :: "announcement list"
  peers :: "peer list"
  peers_count :: uint

text \<open>
  \<open>env_n\<close> is what the databases depend on. \<^verbatim>\<open>valid_block\<close> and \<^verbatim>\<open>build_mempool_list\<close> have no \<^verbatim>\<open>return\<close>; their values are fields.
  \<^verbatim>\<open>data_limbo_add\<close> and \<^verbatim>\<open>MAX_MEMPOOL_SIZE\<close> are not defined in the repository. \<open>resp_base\<close> and \<open>msg_base\<close> are the addresses of the
  two buffers. \<open>sendto\<close> is the value the call returns for the bytes to send.
\<close>

record 'd net_env =
  env_n :: "'d env"
  resp_base :: "64 word"
  msg_base :: "64 word"
  valid_block :: "bytes \<Rightarrow> bool"
  mempool_list_value :: uchar
  data_limbo_add :: "'d \<Rightarrow> bytes \<Rightarrow> 'd"
  version_e :: ushort
  MAX_MEMPOOL_SIZE :: uint
  sendto :: "bytes \<Rightarrow> int"

datatype outcome = Continue | Break

subsection \<open>Sending\<close>

text \<open>
  The bytes given to \<^verbatim>\<open>sendto\<close>, whose return value is an argument; \<open>junk\<close> is the contents of \<^verbatim>\<open>raw_msg\<close> as allocated. The
  message is copied to \<^verbatim>\<open>raw_msg[1]\<close>, over the version and the content type just written.
\<close>

definition sendto_peer :: "(nat \<Rightarrow> bytes) \<Rightarrow> (bytes \<Rightarrow> int) \<Rightarrow> uchar \<Rightarrow> bytes \<Rightarrow> uint \<Rightarrow> bytes res" where
  "sendto_peer junk sendto_fn CTYPE msg msg_length =
     (let raw_msg = junk (unat (msg_length + 3)) in
      rbind (store raw_msg 0 (ucast (push_bit 8 VERSION AND 0xFF))) (\<lambda>raw_msg.
      rbind (store raw_msg 1 (ucast (VERSION AND 0xFF))) (\<lambda>raw_msg.
      rbind (store raw_msg 2 CTYPE) (\<lambda>raw_msg.
      rbind (if msg_length > 0 then memcpy raw_msg 1 msg 0 (unat msg_length) else Inr raw_msg) (\<lambda>raw_msg.
      rbind (mem_read raw_msg 0 (unat (msg_length + 1))) (\<lambda>raw.
      if sendto_fn raw < 0 then Inl (Fatal ''Send to peer failed. ERRNO %d'') else Inr raw))))))"

definition send_resp :: "'d net_env \<Rightarrow> uchar \<Rightarrow> uint \<Rightarrow> 'd conn \<Rightarrow> 'd conn res" where
  "send_resp N CTYPE len c =
     rbind (sendto_peer (junk_e (env_n N)) (sendto N) CTYPE (resp c) len) (\<lambda>raw. Inr (c\<lparr>sent := sent c @ [raw]\<rparr>))"

text \<open>The two leading bytes of an inventory or a request, and its transmission.\<close>

definition send_list :: "'d net_env \<Rightarrow> uchar \<Rightarrow> uchar \<Rightarrow> uchar \<Rightarrow> 'd conn \<Rightarrow> 'd conn res" where
  "send_list N CTYPE dtype count c =
     rbind (store (resp c) 0 dtype) (\<lambda>r.
     rbind (store r 1 count) (\<lambda>r.
     send_resp N CTYPE (2 + ucast count * word_of_nat SIZE_SHA256) (c\<lparr>resp := r\<rparr>)))"

subsection \<open>The handlers\<close>

definition on_getblocks :: "'d net_env \<Rightarrow> bytes \<Rightarrow> 'd conn \<Rightarrow> 'd conn res" where
  "on_getblocks N msg c =
     rbind (load msg CTYPE_GETBLOCKS_POS_BLOCK_COUNT) (\<lambda>req.
     rbind (build_block_list (host (env_n N)) (junk_e (env_n N)) (junk_highest (env_n N)) (bdb_e (env_n N)) (ext_e (env_n N)) (dbs_c c)
              (drop CTYPE_GETBLOCKS_POS_START_BLOCK msg) req (drop CTYPE_INV_POS_IDS (resp c))) (\<lambda>(count, ids).
     send_list N CTYPE_INV DTYPE_BLOCK count (c\<lparr>resp := take CTYPE_INV_POS_IDS (resp c) @ ids\<rparr>)))"

definition on_mempool :: "'d net_env \<Rightarrow> 'd conn \<Rightarrow> 'd conn res" where
  "on_mempool N c =
     rbind (build_mempool_list (object_e (env_n N)) (dbs_c c) (resp c) CTYPE_INV_POS_IDS) (\<lambda>r.
     send_list N CTYPE_INV DTYPE_TX (mempool_list_value N) (c\<lparr>resp := r\<rparr>))"

definition on_inv :: "'d net_env \<Rightarrow> bytes \<Rightarrow> 'd conn \<Rightarrow> 'd conn res" where
  "on_inv N msg c =
     rbind (load msg CTYPE_INV_POS_DATATYPE) (\<lambda>dtype.
     if dtype = DTYPE_BLOCK then
       rbind (load msg CTYPE_INV_POS_IDS_COUNT) (\<lambda>n.
       rbind (build_missing_blocks_list (bdb_e (env_n N)) (dbs_c c) msg CTYPE_INV_POS_IDS n (resp c) CTYPE_GETDATA_POS_IDS) (\<lambda>(count, r).
       send_list N CTYPE_GETDATA DTYPE_BLOCK count (c\<lparr>resp := r\<rparr>)))
     else if dtype = DTYPE_TX then
       rbind (load msg CTYPE_INV_POS_IDS_COUNT) (\<lambda>n.
       rbind (build_missing_tx_list (bdb_e (env_n N)) (dbs_c c) msg CTYPE_INV_POS_IDS n (resp c) CTYPE_GETDATA_POS_IDS) (\<lambda>(count, r).
       send_list N CTYPE_GETDATA DTYPE_TX count (c\<lparr>resp := r\<rparr>)))
     else Inr c)"

text \<open>One requested block.\<close>

definition send_block :: "'d net_env \<Rightarrow> bytes \<Rightarrow> nat \<Rightarrow> 'd conn \<Rightarrow> 'd conn res" where
  "send_block N msg i c =
     (if data_blocks_exists (bdb_e (env_n N)) (dbs_c c) (drop i msg) \<noteq> 0 then
        let (ret, blk) = data_blocks_get (bdb_e (env_n N)) (dbs_c c) (drop i msg) (drop CTYPE_BLOCK_POS_BLOCK (resp c));
            sz = block_compute_size (resp_base N + 4) (\<lambda>b off. tx_compute_size (ext_e (env_n N)) (drop off b)) blk
        in rbind (uitob sz (take CTYPE_BLOCK_POS_BLOCK (resp c) @ blk) CTYPE_BLOCK_POS_SIZE) (\<lambda>r.
           send_resp N CTYPE_BLOCK (4 + sz) (c\<lparr>resp := r\<rparr>))
      else Inr c)"

text \<open>\<^verbatim>\<open>for (int i = ...; i < max; i += SIZE_SHA256)\<close>.\<close>

function ids_loop :: "(nat \<Rightarrow> 'c \<Rightarrow> 'c res) \<Rightarrow> nat \<Rightarrow> nat \<Rightarrow> 'c \<Rightarrow> 'c res" where
  "ids_loop body i mx c = (if i < mx then rbind (body i c) (ids_loop body (i + SIZE_SHA256) mx) else Inr c)"
  by auto
termination by (relation "measure (\<lambda>(body, i, mx, c). mx - i)") auto

declare ids_loop.simps [simp del]

definition send_blocks :: "'d net_env \<Rightarrow> bytes \<Rightarrow> nat \<Rightarrow> nat \<Rightarrow> 'd conn \<Rightarrow> 'd conn res" where
  "send_blocks N msg i mx c = ids_loop (send_block N msg) i mx c"

text \<open>
  One requested transaction. The transaction is fetched by the position \<^verbatim>\<open>i\<close> in the message and not by the place where it was
  found; a null pointer is dereferenced when that is past the pool.
\<close>

definition send_tx :: "'d net_env \<Rightarrow> bytes \<Rightarrow> nat \<Rightarrow> 'd conn \<Rightarrow> 'd conn res" where
  "send_tx N msg i c =
     rbind (data_mempool_exists (dbs_c c) (drop i msg)) (\<lambda>found.
     if found then
       rbind (data_mempool_get (dbs_c c) (word_of_nat i)) (\<lambda>p.
       case p of None \<Rightarrow> Inl NullPointer
       | Some tx \<Rightarrow>
           (case data_t tx of None \<Rightarrow> Inl NullPointer
            | Some d \<Rightarrow>
                rbind (memcpy (resp c) CTYPE_TX_POS_TX d 0 (unat (size_t tx))) (\<lambda>r.
                rbind (uitob (size_t tx) r CTYPE_TX_POS_SIZE) (\<lambda>r.
                send_resp N CTYPE_TX (4 + size_t tx) (c\<lparr>resp := r\<rparr>)))))
     else Inr c)"

definition send_txs :: "'d net_env \<Rightarrow> bytes \<Rightarrow> nat \<Rightarrow> nat \<Rightarrow> 'd conn \<Rightarrow> 'd conn res" where
  "send_txs N msg i mx c = ids_loop (send_tx N msg) i mx c"

text \<open>The loop over the known peers, first argument \<^verbatim>\<open>count - i\<close>.\<close>

primrec send_peers :: "nat \<Rightarrow> nat \<Rightarrow> 'd net_env \<Rightarrow> 'd conn \<Rightarrow> 'd conn res" where
  "send_peers 0 i N c = Inr c"
| "send_peers (Suc n) i N c =
     rbind (load (peers c) i) (\<lambda>p.
     rbind (ustob (ucast (port_p p)) (resp c) CTYPE_PEER_POS_PORT) (\<lambda>r.
     rbind (ustob (ucast (addr_len p)) r CTYPE_PEER_POS_ADDR_LEN) (\<lambda>r.
     rbind (memcpy r CTYPE_PEER_POS_ADDR (addr_p p) 0 (unat (addr_len p))) (\<lambda>r.
     rbind (send_resp N CTYPE_PEER (4 + addr_len p) (c\<lparr>resp := r\<rparr>)) (send_peers n (i + 1) N)))))"

text \<open>\<^verbatim>\<open>uchar max = count * SIZE_SHA256\<close> keeps the low eight bits; the loop over transactions runs to \<^verbatim>\<open>count\<close> itself. The
  number of peers is kept in an \<^verbatim>\<open>uchar\<close> too.\<close>

definition on_getdata :: "'d net_env \<Rightarrow> bytes \<Rightarrow> 'd conn \<Rightarrow> 'd conn res" where
  "on_getdata N msg c =
     rbind (load msg CTYPE_GETDATA_POS_DATATYPE) (\<lambda>dtype.
     if dtype = DTYPE_BLOCK then
       rbind (load msg CTYPE_GETDATA_POS_IDS_COUNT) (\<lambda>count.
       send_blocks N msg CTYPE_GETDATA_POS_IDS (unat (count * word_of_nat SIZE_SHA256)) c)
     else if dtype = DTYPE_TX then
       rbind (load msg CTYPE_GETDATA_POS_IDS_COUNT) (\<lambda>count. send_txs N msg CTYPE_GETDATA_POS_IDS (unat count) c)
     else if dtype = DTYPE_NODE then
       (let count = ucast (peers_count c) :: uchar in send_peers (unat count) 0 N c)
     else Inr c)"

text \<open>
  A received block. It goes to limbo when it is not above the chain or at least two above it, with a request for its own hash; one above the
  chain it goes to the chain if it continues it and else to limbo. \<^verbatim>\<open>data_chain_safe_set\<close> expects a hash and is given the block.
\<close>

definition place_block :: "'d net_env \<Rightarrow> bytes \<Rightarrow> uint \<Rightarrow> uint \<Rightarrow> bytes \<Rightarrow> 'd conn \<Rightarrow> 'd conn res" where
  "place_block N block height curr_height curr_hash c =
     (let E = env_n N; dbs = dbs_c c; limbo_dbs = dbs\<lparr>limbo_db := data_limbo_add N (limbo_db dbs) block\<rparr> in
      if height \<le> curr_height \<or> (height > 2 \<and> height - 2 \<ge> curr_height) then
        rbind (memcpy (resp c) CTYPE_INV_POS_IDS (block_compute_hash (ext_e E) block) 0 SIZE_SHA256) (\<lambda>r.
        send_list N CTYPE_GETDATA DTYPE_BLOCK 1 (c\<lparr>dbs_c := limbo_dbs, resp := r\<rparr>))
      else if height - 1 = curr_height then
        rbind (mem_read block POS_BLOCK_PREV_HASH SIZE_SHA256) (\<lambda>x.
        rbind (mem_read curr_hash 0 SIZE_SHA256) (\<lambda>y.
        Inr (c\<lparr>dbs_c := if x = y then chain_safe_set E dbs block else limbo_dbs\<rparr>)))
      else Inr c)"

definition on_block :: "'d net_env \<Rightarrow> bytes \<Rightarrow> 'd conn \<Rightarrow> 'd conn res" where
  "on_block N msg c =
     (let E = env_n N; block = drop CTYPE_BLOCK_POS_BLOCK msg; dbs = dbs_c c in
      rbind (btoui (host E) msg CTYPE_BLOCK_POS_SIZE) (\<lambda>size_unused.
      rbind (btoui (host E) block POS_BLOCK_HEIGHT) (\<lambda>height.
      rbind (chain_get_height E dbs) (\<lambda>curr_height.
      let curr_hash = snd (chain_get E dbs curr_height (junk_e E SIZE_SHA256));
          dbs = (if valid_block N block then data_blocks_add (msg_base N + 4) (bdb_e E) (ext_e E) dbs block else dbs)
      in rbind (place_block N block height curr_height curr_hash (c\<lparr>dbs_c := dbs\<rparr>)) (\<lambda>c.
         rbind (data_limbo_scan E (dbs_c c)) (\<lambda>(dbs, out).
         Inr (c\<lparr>dbs_c := dbs, announced := announced c @ out\<rparr>)))))))"

text \<open>
  A received transaction is generated anew from its parts. \<^verbatim>\<open>data_mempool_add\<close> expects serialised bytes and is given the struct;
  its \<^verbatim>\<open>data\<close> is passed here.
\<close>

definition on_tx :: "'d net_env \<Rightarrow> bytes \<Rightarrow> 'd conn \<Rightarrow> 'd conn res" where
  "on_tx N msg c =
     (if count_m (mempool_d (dbs_c c)) < MAX_MEMPOOL_SIZE N then
        rbind (btous (host (env_n N)) msg (CTYPE_TX_POS_TX + POS_TX_IN_COUNT)) (\<lambda>in_count.
        rbind (btous (host (env_n N)) msg (CTYPE_TX_POS_TX + POS_TX_OUT_COUNT)) (\<lambda>out_count.
        rbind (btoui (host (env_n N)) msg (CTYPE_TX_POS_TX + POS_TX_LOCK_TIME)) (\<lambda>lock_time.
        rbind (m_tx_gen (junk_e (env_n N)) (\<lambda>d h. tx_compute_hash (ext_e (env_n N)) d) (version_e N) in_count out_count lock_time
                 msg (CTYPE_TX_POS_TX + POS_TX_BODY)
                 msg (CTYPE_TX_POS_TX + POS_TX_BODY + unat in_count * SIZE_TX_INPUT)) (\<lambda>tx.
        case data_t tx of None \<Rightarrow> Inl NullPointer
        | Some d \<Rightarrow>
            rbind (data_mempool_add (junk_e (env_n N)) (ext_e (env_n N)) (hash_e (env_n N)) (dbs_c c) d) (\<lambda>dbs.
            Inr (c\<lparr>dbs_c := dbs\<rparr>))))))
      else Inr c)"

definition reject_version :: "'d net_env \<Rightarrow> 'd conn \<Rightarrow> 'd conn res" where
  "reject_version N c =
     rbind (store (resp c) CTYPE_REJECT_POS_ERRORTYPE ERR_BAD_VERSION) (\<lambda>r.
     rbind (memset r CTYPE_REJECT_POS_INFO_SIZE 0 4) (\<lambda>r.
     send_resp N CTYPE_REJECT 5 (c\<lparr>resp := r\<rparr>)))"

definition dispatch :: "'d net_env \<Rightarrow> uchar \<Rightarrow> bytes \<Rightarrow> 'd conn \<Rightarrow> 'd conn res" where
  "dispatch N ctype msg c =
     (if ctype = CTYPE_REJECT then rbind (load msg CTYPE_REJECT_POS_ERRORTYPE) (\<lambda>_. Inr c)
      else if ctype = CTYPE_GETBLOCKS then on_getblocks N msg c
      else if ctype = CTYPE_MEMPOOL then on_mempool N c
      else if ctype = CTYPE_INV then on_inv N msg c
      else if ctype = CTYPE_GETDATA then on_getdata N msg c
      else if ctype = CTYPE_BLOCK then on_block N msg c
      else if ctype = CTYPE_TX then on_tx N msg c
      else if ctype = CTYPE_PEER then Inl (Fatal ''recieved peer msg'')
      else if ctype = CTYPE_ALERT then Inl (Fatal ''recieved alert msg'')
      else if ctype = CTYPE_PING then send_resp N CTYPE_PONG 0 c
      else Inr c)"

text \<open>One pass of the loop, on the message buffer after \<^verbatim>\<open>recvfrom\<close>.\<close>

definition handle_message :: "'d net_env \<Rightarrow> bytes \<Rightarrow> 'd conn \<Rightarrow> (outcome \<times> 'd conn) res" where
  "handle_message N msg c =
     rbind (btous (host (env_n N)) msg POS_MSG_VERSION) (\<lambda>v.
     if ntohs (host (env_n N)) v \<noteq> VERSION then rbind (reject_version N c) (\<lambda>c. Inr (Break, c))
     else
       rbind (load msg POS_MSG_CTYPE) (\<lambda>ctype.
       rbind (dispatch N ctype msg c) (\<lambda>c. Inr (Continue, c))))"

text \<open>
  The loop over the results of \<^verbatim>\<open>recvfrom\<close>, each the bytes received, or \<open>None\<close> for a peer that has shut down or an error. The
  buffer keeps what earlier messages left in it.
\<close>

primrec handle_loop :: "'d net_env \<Rightarrow> bytes option list \<Rightarrow> bytes \<Rightarrow> 'd conn \<Rightarrow> 'd conn res" where
  "handle_loop N [] msg c = Inr c"
| "handle_loop N (r # rs) msg c =
     (case r of None \<Rightarrow> Inr c
      | Some bs \<Rightarrow>
          rbind (mem_write msg 0 bs) (\<lambda>msg.
          rbind (handle_message N msg c) (\<lambda>(out, c).
          case out of Break \<Rightarrow> Inr c | Continue \<Rightarrow> handle_loop N rs msg c)))"

text \<open>
  \<^verbatim>\<open>handle_connection\<close>, with the results of the two allocations: \<^verbatim>\<open>if (resp == NULL);\<close> has an empty statement as its body, so
  the call of \<^verbatim>\<open>fatal\<close> after it is not conditional.
\<close>

definition handle_connection :: "'d net_env \<Rightarrow> bytes option \<Rightarrow> bytes option \<Rightarrow> bytes option list \<Rightarrow> 'd conn \<Rightarrow> 'd conn res" where
  "handle_connection N msg_alloc resp_alloc rs c =
     rbind (case msg_alloc of None \<Rightarrow> Inl (Fatal ''Failed to allocate msg buffer'') | Some msg \<Rightarrow> Inr msg) (\<lambda>msg.
     rbind (Inl (Fatal ''Failed to allocate response buffer'')) (\<lambda>resp_buf.
     handle_loop N rs msg (c\<lparr>resp := resp_buf\<rparr>)))"

subsection \<open>What is sent\<close>

lemma sendto_peer_ok:
  assumes "\<forall>n. length (junk n) = n" "unat len \<le> length msg" "len < 0xFFFFFFFD"
  shows "sendto_peer junk sf CTYPE msg len =
    (if sf (0 # take (unat len) msg) < 0 then Inl (Fatal ''Send to peer failed. ERRNO %d'') else Inr (0 # take (unat len) msg))"
proof -
  have n: "unat (len + 3) = unat len + 3" "unat (len + 1) = unat len + 1"
    using assms(3) by (simp_all add: unat_word_ariths word_less_nat_alt)
  let ?raw = "(junk (unat len + 3))[0 := 0, 1 := 1, 2 := CTYPE]"
  have "segment (patch ?raw 1 (take (unat len) msg)) 0 (unat len + 1) = 0 # take (unat len) msg" if "0 < unat len"
    using assms(1) [rule_format, of "unat len + 3"] assms(2) that by (cases "junk (unat len + 3)") (auto simp: segment_def patch_def min_def)
  moreover have "segment ?raw 0 1 = [0]" if "unat len = 0"
    using assms(1) [rule_format, of "unat len + 3"] that by (cases "junk 3") (auto simp: segment_def)
  ultimately show ?thesis
    using assms n by (auto simp: sendto_peer_def Let_def mem_simps segment_def unat_gt_0 word_gt_0)
qed

lemma sendto_peer_too_long:
  assumes "\<forall>n. length (junk n) = n" "0xFFFFFFFD \<le> len"
  shows "sendto_peer junk sf CTYPE msg len = Inl OutOfBounds"
proof -
  have "unat (len + 3) < 3"
    using assms(2) unat_uint_less [of len] by (simp add: unat_word_ariths word_le_nat_alt le_mod_geq)
  with assms(1) show ?thesis by (auto simp: sendto_peer_def Let_def store_def rbind_def)
qed

lemma sendto_peer_Inr:
  assumes "\<forall>n. length (junk n) = n" "sendto_peer junk sf CTYPE msg len = Inr raw"
  shows "raw = 0 # take (unat len) msg"
proof -
  have "len < 0xFFFFFFFD" using sendto_peer_too_long assms by (metis Inl_Inr_False not_le)
  moreover have "unat len \<le> length msg"
    using assms(2) by (cases "len = 0") (auto simp: sendto_peer_def Let_def rbind_eq_Inr memcpy_def mem_read_def word_gt_0 split: if_splits)
  ultimately show ?thesis using sendto_peer_ok assms by (metis Inl_Inr_False Inr_inject)
qed

subsection \<open>The contract of a handler\<close>

text \<open>
  What every handler keeps: the known peers, and the messages and announcements sent so far; every message it adds starts with a
  zero byte.
\<close>

definition extends :: "'d conn \<Rightarrow> 'd conn \<Rightarrow> bool" where
  "extends c c' \<longleftrightarrow> peers c' = peers c \<and> peers_count c' = peers_count c \<and>
     (\<exists>as. announced c' = announced c @ as) \<and> (\<exists>ms. sent c' = sent c @ ms \<and> (\<forall>m \<in> set ms. \<exists>payload. m = 0 # payload))"

definition allocates :: "'d net_env \<Rightarrow> bool" where
  "allocates N \<longleftrightarrow> (\<forall>n. length (junk_e (env_n N) n) = n)"

lemma extends_refl [simp]: "extends c c"
  by (simp add: extends_def)

lemma extends_trans [trans]: "extends c c' \<Longrightarrow> extends c' c'' \<Longrightarrow> extends c c''"
  unfolding extends_def by (elim conjE exE) auto

lemma extends_update [simp]:
  "extends (c\<lparr>resp := r\<rparr>) c' = extends c c'" "extends (c\<lparr>dbs_c := d\<rparr>) c' = extends c c'"
  "extends c (c'\<lparr>resp := r\<rparr>) = extends c c'" "extends c (c'\<lparr>dbs_c := d\<rparr>) = extends c c'"
  by (simp_all add: extends_def)

lemma extends_announce: "extends c (c\<lparr>announced := announced c @ as\<rparr>)"
  by (simp add: extends_def)

locale handler =
  fixes h :: "'d net_env \<Rightarrow> 'd conn \<Rightarrow> 'd conn res"
  assumes extends: "allocates N \<Longrightarrow> h N c = Inr c' \<Longrightarrow> extends c c'"
begin

text \<open>A handler after a change of the buffer or the databases, and after another handler.\<close>

lemma after_update:
  "allocates N \<Longrightarrow> h N (c\<lparr>resp := r\<rparr>) = Inr c' \<Longrightarrow> extends c c'"
  "allocates N \<Longrightarrow> h N (c\<lparr>dbs_c := d, resp := r\<rparr>) = Inr c' \<Longrightarrow> extends c c'"
  using extends by fastforce+

lemma after_handler:
  "handler g \<Longrightarrow> handler (\<lambda>N c. rbind (g N c) (h N))"
  unfolding handler_def by (auto simp: rbind_eq_Inr) (metis extends extends_trans)

end

lemma send_resp_extends: "allocates N \<Longrightarrow> send_resp N CTYPE len c = Inr c' \<Longrightarrow> extends c c'"
  by (auto simp: send_resp_def rbind_eq_Inr extends_def allocates_def dest!: sendto_peer_Inr)

interpretation resp_handler: handler "\<lambda>N. send_resp N CTYPE len" for CTYPE len
  by unfold_locales (rule send_resp_extends)

interpretation list_handler: handler "\<lambda>N. send_list N CTYPE dtype count" for CTYPE dtype count
  by unfold_locales (auto simp: send_list_def rbind_eq_Inr dest: resp_handler.after_update)

interpretation block_handler: handler "\<lambda>N. send_block N msg i" for msg i
  by unfold_locales
     (auto simp: send_block_def Let_def rbind_eq_Inr split_beta split: if_splits dest: resp_handler.after_update)

interpretation tx_handler: handler "\<lambda>N. send_tx N msg i" for msg i
  by unfold_locales
     (auto simp: send_tx_def rbind_eq_Inr split: if_splits option.splits dest: resp_handler.after_update)

lemma ids_loop_extends:
  assumes "\<And>i. handler (\<lambda>N. body N i)" "allocates N"
  shows "ids_loop (body N) i mx c = Inr c' \<Longrightarrow> extends c c'"
proof (induction "body N" i mx c rule: ids_loop.induct)
  case (1 i mx c)
  show ?case
  proof (cases "i < mx")
    case True
    with 1(2) obtain d where "body N i c = Inr d" "ids_loop (body N) (i + SIZE_SHA256) mx d = Inr c'"
      by (auto simp: ids_loop.simps [of "body N" i] rbind_eq_Inr)
    with 1(1) [OF True] handler.extends [OF assms] show ?thesis by (blast intro: extends_trans)
  next
    case False
    with 1(2) show ?thesis by (simp add: ids_loop.simps)
  qed
qed

lemma send_peers_extends: "allocates N \<Longrightarrow> send_peers n i N c = Inr c' \<Longrightarrow> extends c c'"
proof (induction n arbitrary: i c)
  case (Suc n)
  then obtain d where "extends c d" "send_peers n (i + 1) N d = Inr c'"
    by (auto simp: rbind_eq_Inr dest: resp_handler.after_update(1))
  with Suc show ?case by (blast intro: extends_trans)
qed simp

interpretation blocks_handler: handler "\<lambda>N. send_blocks N msg i mx" for msg i mx
  by unfold_locales (simp add: send_blocks_def ids_loop_extends [OF block_handler.handler_axioms])

interpretation txs_handler: handler "\<lambda>N. send_txs N msg i mx" for msg i mx
  by unfold_locales (simp add: send_txs_def ids_loop_extends [OF tx_handler.handler_axioms])

interpretation peers_handler: handler "send_peers n i" for n i
  by unfold_locales (rule send_peers_extends)

interpretation getblocks_handler: handler "\<lambda>N. on_getblocks N msg" for msg
  by unfold_locales (auto simp: on_getblocks_def rbind_eq_Inr dest: list_handler.after_update)

interpretation mempool_handler: handler on_mempool
  by unfold_locales (auto simp: on_mempool_def rbind_eq_Inr dest: list_handler.after_update)

interpretation inv_handler: handler "\<lambda>N. on_inv N msg" for msg
  by unfold_locales (auto simp: on_inv_def rbind_eq_Inr split: if_splits dest: list_handler.after_update)

interpretation getdata_handler: handler "\<lambda>N. on_getdata N msg" for msg
  by unfold_locales
     (auto simp: on_getdata_def rbind_eq_Inr Let_def split: if_splits
       dest: blocks_handler.extends txs_handler.extends peers_handler.extends)

interpretation place_handler: handler "\<lambda>N. place_block N block height curr_height curr_hash" for block height curr_height curr_hash
  by unfold_locales
     (auto simp: place_block_def rbind_eq_Inr Let_def split: if_split_asm dest: list_handler.after_update)

lemma on_block_extends:
  assumes "allocates N" "on_block N msg c = Inr c'"
  shows "extends c c'"
proof -
  obtain d b h ch cc e ds out where "place_block N b h ch cc (c\<lparr>dbs_c := d\<rparr>) = Inr e"
    "c' = e\<lparr>dbs_c := ds, announced := announced e @ out\<rparr>"
    using assms(2) by (simp add: on_block_def rbind_eq_Inr Let_def split_beta) blast
  moreover from this(1) have "extends c e" using place_handler.extends [OF assms(1)] by fastforce
  ultimately show ?thesis
    using extends_announce [of "e\<lparr>dbs_c := ds\<rparr>" out] by (auto intro: extends_trans)
qed

interpretation recv_block_handler: handler "\<lambda>N. on_block N msg" for msg
  by unfold_locales (rule on_block_extends)

interpretation recv_tx_handler: handler "\<lambda>N. on_tx N msg" for msg
  by unfold_locales (auto simp: on_tx_def rbind_eq_Inr split: if_splits option.splits)

interpretation reject_handler: handler reject_version
  by unfold_locales (auto simp: reject_version_def rbind_eq_Inr dest: resp_handler.after_update)

lemmas handlers_extend = resp_handler.extends getblocks_handler.extends mempool_handler.extends inv_handler.extends
  getdata_handler.extends recv_block_handler.extends recv_tx_handler.extends

lemma dispatch_extends: "allocates N \<Longrightarrow> dispatch N ctype msg c = Inr c' \<Longrightarrow> extends c c'"
  by (auto simp: dispatch_def rbind_eq_Inr split: if_split_asm dest: handlers_extend)

lemma handle_message_extends: "allocates N \<Longrightarrow> handle_message N msg c = Inr (out, c') \<Longrightarrow> extends c c'"
  by (auto simp: handle_message_def rbind_eq_Inr split: if_split_asm dest: reject_handler.extends dispatch_extends)

subsection \<open>The wire format\<close>

text \<open>
  What \<^verbatim>\<open>sendto_peer\<close> puts on the wire: for a message that is as long as the given length (and shorter than \<open>2\<^sup>3\<^sup>2 - 3\<close>) the bytes sent are one zero byte
  and the message. The version and the content type written before are overwritten by the message, which is copied to
  \<^verbatim>\<open>raw_msg[1]\<close>, so the bytes do not depend on the content type. A failing \<^verbatim>\<open>sendto\<close> ends the program.
\<close>

lemma sendto_peer_wire_format:
  assumes "\<forall>n. length (junk n) = n" "unat msg_length \<le> length msg" "msg_length < 0xFFFFFFFD"
    and "wire = 0 # take (unat msg_length) msg"
  shows "sendto_peer junk sendto_fn CTYPE msg msg_length =
    (if sendto_fn wire < 0 then Inl (Fatal ''Send to peer failed. ERRNO %d'') else Inr wire)"
  using sendto_peer_ok [OF assms(1-3)] assms(4) by simp

lemma sendto_peer_wire_format_witness:
  "sendto_peer (\<lambda>n. replicate n 7) (\<lambda>_. 0) CTYPE_INV [0, 1, 9, 9] 3 = Inr [0, 0, 1, 9]"
  using sendto_peer_wire_format [of "\<lambda>n. replicate n 7" 3 "[0, 1, 9, 9]", OF _ _ _ refl, of "\<lambda>_. 0" CTYPE_INV] by simp


definition some_net :: "(bytes \<times> bytes) list net_env" where
  "some_net = \<lparr>env_n = some_env, resp_base = 173, msg_base = 0, valid_block = (\<lambda>_. True), mempool_list_value = 0, data_limbo_add = (\<lambda>db b. db),
     version_e = 1, MAX_MEMPOOL_SIZE = 10, sendto = (\<lambda>_. 0)\<rparr>"

definition some_conn :: "(bytes \<times> bytes) list conn" where
  "some_conn = \<lparr>dbs_c = some_dbs, resp = replicate 40 0, sent = [], announced = [], peers = [], peers_count = 0\<rparr>"


subsection \<open>What is received\<close>

lemma be16_eq_VERSION: "be16 a b = 1 \<longleftrightarrow> a = 0 \<and> b = 1"
proof
  assume h: "be16 a b = 1"
  from byte_be16 [of a b, unfolded h] show "a = 0 \<and> b = 1" by auto
qed (simp add: be16_def)

lemma handle_message_eq:
  assumes "3 \<le> length msg"
  shows "handle_message N msg c =
    (if msg ! 0 = 0 \<and> msg ! 1 = 1 then rbind (dispatch N (msg ! 2) msg c) (\<lambda>c. Inr (Continue, c))
     else rbind (reject_version N c) (\<lambda>c. Inr (Break, c)))"
  using assms by (simp add: handle_message_def btous_ok dec16_def be16_eq_VERSION mem_simps)

subsection \<open>Requested blocks\<close>

lemma ids_loop_count:
  assumes step: "\<And>i c d. I c \<Longrightarrow> body i c = Inr d \<Longrightarrow> I d \<and> f d \<le> f c + 1 \<and> (all \<longrightarrow> f d = f c + (1 :: nat))"
  shows "I c \<Longrightarrow> ids_loop body i mx c = Inr c' \<Longrightarrow>
    I c' \<and> f c' \<le> f c + (mx + 31 - i) div 32 \<and> (all \<longrightarrow> f c' = f c + (mx + 31 - i) div 32)"
proof (induction "mx - i" arbitrary: i c rule: less_induct)
  case less
  show ?case
  proof (cases "i < mx")
    case True
    with less.prems(2) obtain d where d: "body i c = Inr d" and rest: "ids_loop body (i + 32) mx d = Inr c'"
      by (auto simp: ids_loop.simps [of body i] rbind_eq_Inr)
    have "(mx + 31 - i) div 32 = 1 + (mx + 31 - (i + 32)) div 32" using True by (simp add: div_if)
    with step [OF less.prems(1) d] less.hyps [of "i + 32" d] rest True show ?thesis by fastforce
  next
    case False
    then have "(mx + 31 - i) div 32 = 0" by simp
    with less.prems False show ?thesis by (simp add: ids_loop.simps)
  qed
qed

lemma send_block_count:
  assumes "dbs_c c = dbs" "send_block N msg i c = Inr d"
  shows "dbs_c d = dbs \<and> length (sent d) \<le> length (sent c) + 1
    \<and> ((\<forall>hash. data_blocks_exists (bdb_e (env_n N)) dbs hash \<noteq> 0) \<longrightarrow> length (sent d) = length (sent c) + 1)"
  using assms by (auto simp: send_block_def send_resp_def rbind_eq_Inr Let_def split_beta split: if_split_asm)

lemma unat_times_32: "unat ((n :: uchar) * 32) = 32 * (unat n mod 8)"
  using mult_mod_right [of 32 "unat n" 8] by (simp add: unat_word_ariths mult.commute)

text \<open>
  C32. A request for \<^verbatim>\<open>count\<close> blocks is answered with at most \<^verbatim>\<open>count\<close> modulo 8 of them, and with exactly so many when all of them are
  stored: the end of the loop, \<^verbatim>\<open>count * SIZE_SHA256\<close>, is kept in an \<^verbatim>\<open>uchar\<close>. A request for 8 blocks is not answered at all. The
  databases do not change.
\<close>

theorem getdata_serves_mod_8:
  assumes "2 \<le> length msg" "msg ! 0 = DTYPE_BLOCK" "on_getdata N msg c = Inr c'"
  shows "dbs_c c' = dbs_c c \<and> length (sent c') \<le> length (sent c) + unat (msg ! 1) mod 8
    \<and> ((\<forall>hash. data_blocks_exists (bdb_e (env_n N)) (dbs_c c) hash \<noteq> 0)
       \<longrightarrow> length (sent c') = length (sent c) + unat (msg ! 1) mod 8)"
proof -
  have "(32 * (unat (msg ! 1) mod 8) + 31 - 2) div 32 = unat (msg ! 1) mod 8" by simp
  moreover have l: "load msg 0 = Inr 0" "load msg 1 = Inr (msg ! 1)" using assms(1,2) by (auto simp: load_def)
  have "ids_loop (send_block N msg) 2 (32 * (unat (msg ! 1) mod 8)) c = Inr c'"
    using assms(3) unfolding on_getdata_def l by (simp add: send_blocks_def unat_times_32)
  ultimately show ?thesis
    using ids_loop_count [of "\<lambda>c'. dbs_c c' = dbs_c c" "send_block N msg" "\<lambda>c. length (sent c)"
        "\<forall>hash. data_blocks_exists (bdb_e (env_n N)) (dbs_c c) hash \<noteq> 0" c 2]
      send_block_count by (smt (verit) add_diff_cancel_left')
qed

definition asking_for_9 :: bytes where
  "asking_for_9 = [0, 9] @ replicate 32 1"

theorem getdata_serves_mod_8_witness:
  "\<exists>c. on_getdata some_net asking_for_9 (some_conn\<lparr>dbs_c := chain_dbs, resp := replicate 87 0\<rparr>) = Inr c \<and> length (sent c) = 1"
proof -
  let ?c0 = "some_conn\<lparr>dbs_c := chain_dbs, resp := replicate 87 0\<rparr>"
  have ex: "data_blocks_exists (bdb_e (env_n some_net)) chain_dbs hash = 1" for hash
    by (simp add: data_blocks_exists_def some_net_def some_env_def alist_bdb_def chain_dbs_def db_exists_def)
  have get: "data_blocks_get (bdb_e (env_n some_net)) chain_dbs hash dest = (0, dest)" for hash dest
    by (simp add: data_blocks_get_def some_net_def some_env_def alist_bdb_def alist_get_def chain_dbs_def db_get_def Let_def requested_def)
       (simp add: new_dbt_def)
  have "\<exists>c. send_block some_net asking_for_9 2 ?c0 = Inr c"
    using sendto_peer_ok [of "junk_e (env_n some_net)" 87 "patch (replicate 87 0) 0 (enc32 83)" "sendto some_net" CTYPE_BLOCK]
    by (simp add: send_block_def ex get block_compute_size_low_byte_0 send_resp_def uitob_ok mem_simps)
       (simp add: some_net_def some_env_def block_compute_size_low_byte_0 Let_def flip: replicate_add)
  then obtain c where "on_getdata some_net asking_for_9 ?c0 = Inr c"
    by (auto simp: on_getdata_def send_blocks_def ids_loop.simps asking_for_9_def)
  moreover have "data_blocks_exists (bdb_e (env_n some_net)) (dbs_c ?c0) hash \<noteq> 0" for hash
    by (simp add: ex)
  moreover have "asking_for_9 ! 1 = 9" "asking_for_9 ! 0 = 0" "2 \<le> length asking_for_9" by (simp_all add: asking_for_9_def)
  moreover have "length (sent ?c0) = 0" by (simp add: some_conn_def)
  ultimately show ?thesis using getdata_serves_mod_8 [of asking_for_9 some_net ?c0 c] by simp
qed

text \<open>
  The two checks on the allocations: \<^verbatim>\<open>handle_connection\<close> never gets to its loop, whether the allocations succeed or not.
\<close>

lemma handle_connection_always_fatal:
  "handle_connection N msg_alloc resp_alloc rs c =
    Inl (Fatal (if msg_alloc = None then ''Failed to allocate msg buffer'' else ''Failed to allocate response buffer''))"
  by (simp add: handle_connection_def split: option.split)

end
