(* ===== verification/Join.thy ===== *)
theory Join
  imports Network
begin

text \<open>
  \<^verbatim>\<open>src/src/network.c\<close>: joining the network, as a state machine.

  \<^verbatim>\<open>join_network\<close> runs concurrently with the listener and with the threads that handle connections; they share the mutex
  \<^verbatim>\<open>peers_mutex\<close>, \<^verbatim>\<open>peers_count\<close> and \<^verbatim>\<open>server_ready\<close>. A state has a program counter for \<^verbatim>\<open>join_network\<close>, with one value for
  each statement that can be interleaved with another thread, and the owner of the mutex. The mutex is a default one
  (\<^verbatim>\<open>PTHREAD_MUTEX_INITIALIZER\<close>): locking it blocks as long as any thread owns it, the locking thread included. What the
  system calls return, and what the memory from \<^verbatim>\<open>malloc\<close> holds (\<^verbatim>\<open>peers_count\<close> and the fields of \<^verbatim>\<open>peers[0]\<close> are never
  initialised), is arbitrary.
\<close>

subsection \<open>Sockets\<close>

text \<open>
  \<^verbatim>\<open>start_client_conn\<close>, with the values of \<^verbatim>\<open>socket\<close> and \<^verbatim>\<open>connect\<close>. It returns the descriptor; \<^verbatim>\<open>peer->connfd\<close> is not
  assigned, here or in the caller.
\<close>

definition start_client_conn :: "int \<Rightarrow> int \<Rightarrow> int res" where
  "start_client_conn socket_val connect_val =
     (if socket_val < 0 then Inl (Fatal ''Client socket creation failed. ERRNO %d'')
      else if connect_val < 0 then Inr (-1)
      else Inr socket_val)"

text \<open>
  \<^verbatim>\<open>server_listener\<close> up to the assignment of \<^verbatim>\<open>server_ready\<close>, with the values of \<^verbatim>\<open>socket\<close>, \<^verbatim>\<open>bind\<close> and \<^verbatim>\<open>listen\<close>; then
  one pass of its loop: the new peer for the result of \<^verbatim>\<open>accept\<close>, whose length of the address is not set.
\<close>

definition server_setup :: "int \<Rightarrow> int \<Rightarrow> int \<Rightarrow> unit res" where
  "server_setup socket_val bind_val listen_val =
     (if socket_val < 0 then Inl (Fatal ''Server socket creation failed. ERRNO %d'')
      else if bind_val < 0 then Inl (Fatal ''Server failed to bind to address/port. ERRNO %d'')
      else if listen_val < 0 then Inl (Fatal ''Server listen failed. ERRNO %d'')
      else Inr ())"

definition accept_peer :: "uint \<Rightarrow> int \<Rightarrow> ushort \<Rightarrow> bytes \<Rightarrow> (peer \<times> int) res" where
  "accept_peer junk_len accept_val sin_port inet_ntoa_val =
     (if accept_val < 0 then Inl (Fatal ''Server failed to accept a connection. ERRNO %d'')
      else Inr (\<lparr>port_p = ucast sin_port, addr_len = junk_len, addr_p = inet_ntoa_val\<rparr>, accept_val))"

text \<open>\<^verbatim>\<open>data_nodes_get_initial\<close> of \<^verbatim>\<open>src/src/data.c\<close>.\<close>

definition data_nodes_get_initial :: "peer \<Rightarrow> int" where
  "data_nodes_get_initial p = 1"

subsection \<open>State\<close>

datatype thread = Main | Handler nat

text \<open>
  \<open>Lock1\<close> to \<open>Unlock1\<close> are the statements of the first loop, \<open>Lock2\<close> to \<open>Unlock2\<close> those of the second; \<open>Done\<close> is the
  \<^verbatim>\<open>return\<close> and \<open>Exited\<close> the end of the program by \<^verbatim>\<open>fatal\<close> or a fault.
\<close>

datatype pc = Lock1 | Check | Find | Connect | Count | Unlock1 | Send | Create | Lock2 | Wait | Unlock2 | Done | Exited c_error

record join_st =
  pc_j :: pc
  owner :: "thread option"
  count_j :: uint
  ready_j :: uint
  connfd_j :: int
  peer_j :: peer
  listening :: bool
  sent_j :: "bytes list"

text \<open>
  What the main thread sees from outside in one step: the values of the system calls, what the user types, and what \<^verbatim>\<open>malloc\<close> and
  \<^verbatim>\<open>sendto\<close> give.
\<close>

record input =
  socket_i :: int
  connect_i :: int
  scanf_i :: "bytes \<times> uint"
  junk_i :: "nat \<Rightarrow> bytes"
  sendto_i :: "bytes \<Rightarrow> int"

subsection \<open>Steps\<close>

text \<open>The main thread; \<open>None\<close>: it cannot move.\<close>

fun main_step :: "input \<Rightarrow> join_st \<Rightarrow> join_st option" where
  "main_step inp s =
     (case pc_j s of
        Lock1 \<Rightarrow> (if owner s = None then Some (s\<lparr>owner := Some Main, pc_j := Check\<rparr>) else None)
      | Check \<Rightarrow> Some (s\<lparr>pc_j := if count_j s > 0 then Send else Find\<rparr>)
      | Find \<Rightarrow>
          Some ((if data_nodes_get_initial (peer_j s) \<noteq> 0
                 then s\<lparr>peer_j := (peer_j s)\<lparr>addr_p := fst (scanf_i inp), port_p := snd (scanf_i inp)\<rparr>\<rparr>
                 else s)\<lparr>pc_j := Connect\<rparr>)
      | Connect \<Rightarrow>
          (case start_client_conn (socket_i inp) (connect_i inp) of
             Inl err \<Rightarrow> Some (s\<lparr>pc_j := Exited err\<rparr>)
           | Inr fd \<Rightarrow> Some (s\<lparr>pc_j := Count\<rparr>))
      | Count \<Rightarrow> Some (s\<lparr>pc_j := Unlock1, count_j := if connfd_j s > 0 then count_j s + 1 else count_j s\<rparr>)
      | Unlock1 \<Rightarrow> Some (s\<lparr>owner := None, pc_j := Lock1\<rparr>)
      | Send \<Rightarrow>
          (case sendto_peer (junk_i inp) (sendto_i inp) CTYPE_GETDATA [DTYPE_NODE] 1 of
             Inl err \<Rightarrow> Some (s\<lparr>pc_j := Exited err\<rparr>)
           | Inr raw \<Rightarrow> Some (s\<lparr>pc_j := Create, sent_j := sent_j s @ [raw]\<rparr>))
      | Create \<Rightarrow> Some (s\<lparr>pc_j := Lock2, listening := True\<rparr>)
      | Lock2 \<Rightarrow> (if owner s = None then Some (s\<lparr>owner := Some Main, pc_j := Wait\<rparr>) else None)
      | Wait \<Rightarrow> Some (s\<lparr>pc_j := Unlock2\<rparr>)
      | Unlock2 \<Rightarrow> Some (s\<lparr>owner := None, pc_j := Lock2\<rparr>)
      | Done \<Rightarrow> None
      | Exited err \<Rightarrow> None)"

declare main_step.simps [simp del]

text \<open>
  All threads, until the program ends. The listener, once created, gets ready without locking, and then accepts; both may end the program. A handler
  locks the mutex when it is free and unlocks it when it owns it.
\<close>

definition running :: "join_st \<Rightarrow> bool" where
  "running s \<longleftrightarrow> (case pc_j s of Exited err \<Rightarrow> False | _ \<Rightarrow> True)"

inductive join_step :: "join_st \<Rightarrow> join_st \<Rightarrow> bool" where
  main: "main_step inp s = Some s' \<Longrightarrow> join_step s s'"
| ready: "running s \<Longrightarrow> listening s \<Longrightarrow> server_setup a b l = Inr () \<Longrightarrow> join_step s (s\<lparr>ready_j := 1\<rparr>)"
| setup_fails: "running s \<Longrightarrow> listening s \<Longrightarrow> server_setup a b l = Inl err \<Longrightarrow> join_step s (s\<lparr>pc_j := Exited err\<rparr>)"
| accept_fails: "running s \<Longrightarrow> ready_j s = 1 \<Longrightarrow> accept_peer n v port addr = Inl err \<Longrightarrow> join_step s (s\<lparr>pc_j := Exited err\<rparr>)"
| lock: "running s \<Longrightarrow> owner s = None \<Longrightarrow> join_step s (s\<lparr>owner := Some (Handler i)\<rparr>)"
| unlock: "running s \<Longrightarrow> owner s = Some (Handler i) \<Longrightarrow> join_step s (s\<lparr>owner := None\<rparr>)"

inductive_cases join_stepE: "join_step s s'"

text \<open>The start of \<^verbatim>\<open>join_network\<close>: the mutex is free, \<^verbatim>\<open>server_ready\<close> is 0, the rest is as allocated.\<close>

definition join_init :: "join_st \<Rightarrow> bool" where
  "join_init s \<longleftrightarrow> pc_j s = Lock1 \<and> owner s = None \<and> ready_j s = 0 \<and> \<not> listening s \<and> sent_j s = []"

text \<open>
  The invariant: the main thread owns the mutex exactly where it is past the first \<^verbatim>\<open>pthread_mutex_lock\<close> and not yet back in the loop, in
  particular everywhere after the first loop; it is never past the second \<^verbatim>\<open>pthread_mutex_lock\<close>; the descriptor is as allocated;
  and the count can only have left its initial value if that descriptor is positive.
\<close>

definition join_inv :: "join_st \<Rightarrow> join_st \<Rightarrow> bool" where
  "join_inv s t \<longleftrightarrow>
     (case pc_j t of Lock1 \<Rightarrow> owner t \<noteq> Some Main | Exited err \<Rightarrow> True | Wait \<Rightarrow> False | Unlock2 \<Rightarrow> False | Done \<Rightarrow> False
      | _ \<Rightarrow> owner t = Some Main) \<and>
     connfd_j t = connfd_j s \<and> (connfd_j s \<le> 0 \<longrightarrow> count_j t = count_j s) \<and> (pc_j t \<in> {Send, Create, Lock2} \<longrightarrow> count_j t > 0)"

lemma main_step_inv:
  "join_inv s t \<Longrightarrow> main_step inp t = Some u \<Longrightarrow> join_inv s u"
  by (cases "pc_j t") (auto simp: join_inv_def main_step.simps split: if_split_asm sum.splits)

lemma join_step_inv:
  assumes "join_step t u" "join_inv s t"
  shows "join_inv s u"
  using assms
proof (cases rule: join_step.cases)
  case (main inp)
  then show ?thesis using main_step_inv assms(2) by blast
qed (use assms(2) in \<open>auto simp: join_inv_def split: pc.splits\<close>)

interpretation joining: inv_system join_init join_step join_inv
proof unfold_locales
  show "join_inv s s" if "join_init s" for s
    using that by (simp add: join_init_def join_inv_def)
  show "join_inv s u" if "join_init s" "join_inv s t" "join_step t u" for s t u
    using that join_step_inv by blast
qed

text \<open>
  C5. \<^verbatim>\<open>join_network\<close> never returns. It leaves its first loop by a \<^verbatim>\<open>break\<close> that keeps the mutex locked, so from then on the main thread owns
  \<^verbatim>\<open>peers_mutex\<close> and waits for it in the second loop: no step of it is possible, no handler can ever lock the mutex again, and the only
  other end is that the listener ends the program. If the descriptor in the uninitialised memory is not positive and the count there is 0, the first
  loop is never left, since \<^verbatim>\<open>start_client_conn\<close> does not store the descriptor it opens.
\<close>

theorem join_network_never_returns:
  assumes "reach join_init join_step s t"
  shows "pc_j t \<notin> {Wait, Unlock2, Done}
    \<and> (pc_j t = Lock2 \<longrightarrow> (\<forall>inp. main_step inp t = None)
        \<and> (\<forall>u. join_step t u \<longrightarrow> owner u = Some Main \<and> (pc_j u = Lock2 \<or> (\<exists>err. pc_j u = Exited err))))
    \<and> (connfd_j s \<le> 0 \<and> count_j s = 0 \<longrightarrow> pc_j t \<notin> {Send, Create, Lock2})"
proof -
  have inv: "join_inv s t" by (rule joining.reach_inv [OF assms])
  then have "pc_j t \<notin> {Wait, Unlock2, Done}" "connfd_j s \<le> 0 \<and> count_j s = 0 \<longrightarrow> pc_j t \<notin> {Send, Create, Lock2}"
    by (auto simp: join_inv_def)
  moreover have stuck: "owner t = Some Main" "main_step inp t = None" if "pc_j t = Lock2" for inp
    using inv that by (simp_all add: join_inv_def main_step.simps)
  moreover have "owner u = Some Main \<and> (pc_j u = Lock2 \<or> (\<exists>err. pc_j u = Exited err))" if "pc_j t = Lock2" "join_step t u" for u
    using that(2) stuck [OF that(1)] that(1) by (auto elim!: join_stepE)
  ultimately show ?thesis by blast
qed

text \<open>A run of the main thread alone, with the same input at every step.\<close>

primrec main_run :: "nat \<Rightarrow> input \<Rightarrow> join_st \<Rightarrow> join_st option" where
  "main_run 0 inp s = Some s"
| "main_run (Suc n) inp s = (case main_run n inp s of None \<Rightarrow> None | Some t \<Rightarrow> main_step inp t)"

lemma main_run_reach: "join_init s \<Longrightarrow> main_run n inp s = Some t \<Longrightarrow> reach join_init join_step s t"
  by (induction n arbitrary: t) (auto intro: reach.intros join_step.main split: option.splits)

definition join_start :: join_st where
  "join_start = \<lparr>pc_j = Lock1, owner = None, count_j = 0, ready_j = 0, connfd_j = 5, peer_j = \<lparr>port_p = 0, addr_len = 0, addr_p = []\<rparr>,
     listening = False, sent_j = []\<rparr>"

definition some_input :: input where
  "some_input = \<lparr>socket_i = 5, connect_i = 0, scanf_i = ([49], 30330), junk_i = (\<lambda>n. replicate n 0), sendto_i = (\<lambda>_. 2)\<rparr>"

definition join_end :: join_st where
  "join_end = join_start\<lparr>pc_j := Lock2, owner := Some Main, count_j := 1, peer_j := \<lparr>port_p = 30330, addr_len = 0, addr_p = [49]\<rparr>,
     listening := True, sent_j := [[0, 2]]\<rparr>"

lemma join_run: "main_run 10 some_input join_start = Some join_end"
  by code_simp

lemma join_reach: "reach join_init join_step join_start join_end"
  by (rule main_run_reach [OF _ join_run]) (simp add: join_init_def join_start_def)

theorem join_network_never_returns_witness:
  "reach join_init join_step join_start join_end \<and> pc_j join_end = Lock2 \<and> (\<forall>inp. main_step inp join_end = None)"
  using join_network_never_returns [OF join_reach] join_reach by (simp add: join_end_def)

end
