(* ===== verification/Miner.thy ===== *)
theory Miner
  imports Mine Blockchain Limbo
begin

text \<open>
  \<^verbatim>\<open>src/src/mine/mine.c\<close>: the main loop of the miner, on top of \<^verbatim>\<open>mine\<close> and the start of \<^verbatim>\<open>main\<close> in theory \<open>Mine\<close>.

  Other threads change the databases while the miner works, so the loop is a function of a list of moments: each pass of a loop gets the databases and
  the times it sees. The call of \<^verbatim>\<open>block_set_header\<close> is \<^verbatim>\<open>block_add_header\<close>, \<^verbatim>\<open>SIZE_TX_OUT\<close> is \<^verbatim>\<open>SIZE_TX_OUTPUT\<close> and
  \<^verbatim>\<open>&coinbase_output\<close> is \<^verbatim>\<open>coinbase_output\<close>. Calls without their \<^verbatim>\<open>dbs\<close> argument get it. The messages of
  \<^verbatim>\<open>msgall_getblocks\<close> and \<^verbatim>\<open>msgall_mempool\<close>, which are not defined in the repository, are left out.
\<close>

subsection \<open>State\<close>

record 'd miner =
  env_m :: "'d env"
  target_m :: target_ext
  version_m :: ushort
  base_m :: "64 word"
  is_valid_blockhash :: "bytes \<Rightarrow> uchar \<Rightarrow> bool"

record 'd moment =
  dbs_m :: "'d dbs"
  time_target :: uint
  time_header :: uint
  clock_m :: "nat \<Rightarrow> uint"
  ctx_m :: sha256_ctx
  hash_m :: bytes

datatype pass = Stale | Mined "bytes option"

text \<open>The calls of the previous theories as the miner makes them.\<close>

definition add_tx :: "'d miner \<Rightarrow> bytes \<Rightarrow> m_tx \<Rightarrow> bytes res" where
  "add_tx M = block_add_tx (base_m M) (\<lambda>b off. tx_compute_size (ext_e (env_m M)) (drop off b)) (host (env_m M))"

subsection \<open>Operations\<close>

text \<open>The latest block, with the check of the code; after the update the check tests the code of the first call again, which was 0.\<close>

definition latest_block :: "'d env \<Rightarrow> 'd dbs \<Rightarrow> bytes \<Rightarrow> (uint \<times> bytes) res" where
  "latest_block E dbs latest_block_hash =
     rbind (chain_get_height E dbs) (\<lambda>latest_block_height.
     case chain_get E dbs latest_block_height latest_block_hash of (ret, latest_block_hash) \<Rightarrow>
       if ret \<noteq> 0 then Inl (Fatal ''data_chain_get failed: %d'') else Inr (latest_block_height, latest_block_hash))"

definition latest_block_post_update :: "'d env \<Rightarrow> 'd dbs \<Rightarrow> bytes \<Rightarrow> (uint \<times> bytes) res" where
  "latest_block_post_update E dbs latest_block_hash =
     rbind (chain_get_height E dbs) (\<lambda>latest_block_height.
     Inr (latest_block_height, snd (chain_get E dbs latest_block_height latest_block_hash)))"

definition coinbase :: "'d miner \<Rightarrow> bytes \<Rightarrow> m_tx res" where
  "coinbase M miner_addr =
     (let E = env_m M in
      rbind (r_tx_out_gen miner_addr MINING_REWARD (junk_e E SIZE_TX_OUTPUT) 0) (\<lambda>coinbase_output.
      m_tx_gen (junk_e E) (\<lambda>d h. tx_compute_hash (ext_e E) d) (version_m M) 0 1 0 [] 0 coinbase_output 0))"

text \<open>A new work block: the hash of the latest block, the target and the block with its header and the coinbase transaction.\<close>

definition new_workblock :: "'d miner \<Rightarrow> bytes \<Rightarrow> 'd moment \<Rightarrow> bytes \<Rightarrow> bytes \<Rightarrow> (bytes \<times> uint \<times> bytes) res" where
  "new_workblock M miner_addr m latest_block_hash workblock =
     (let E = env_m M in
      rbind (latest_block E (dbs_m m) latest_block_hash) (\<lambda>(latest_block_height, latest_block_hash).
      rbind (compute_next_target (host E) (target_m M) (junk_e E) (time_target m) (bdb_e E) (dbs_m m) latest_block_hash) (\<lambda>target.
      rbind (block_add_header (version_m M) (time_header m) (latest_block_height + 1) latest_block_hash (ucast target) workblock) (\<lambda>workblock.
      rbind (coinbase M miner_addr) (\<lambda>coinbase_tx.
      rbind (add_tx M workblock coinbase_tx) (\<lambda>workblock.
      Inr (latest_block_hash, target, workblock)))))))"

text \<open>Transactions of the pool, from the first one on. First argument: \<^verbatim>\<open>diff - i\<close>.\<close>

primrec pending_loop :: "nat \<Rightarrow> nat \<Rightarrow> 'd miner \<Rightarrow> 'd dbs \<Rightarrow> bytes \<Rightarrow> bytes res" where
  "pending_loop 0 i M dbs workblock = Inr workblock"
| "pending_loop (Suc n) i M dbs workblock =
     rbind (data_mempool_get dbs (word_of_nat i)) (\<lambda>p.
     case p of None \<Rightarrow> Inl NullPointer
     | Some tx \<Rightarrow> rbind (add_tx M workblock tx) (pending_loop n (i + 1) M dbs))"

text \<open>\<^verbatim>\<open>diff\<close> is an unsigned difference stored in an \<^verbatim>\<open>int\<close>.\<close>

definition add_pending :: "'d miner \<Rightarrow> 'd dbs \<Rightarrow> bytes \<Rightarrow> bytes res" where
  "add_pending M dbs workblock =
     rbind (btoui (host (env_m M)) workblock POS_BLOCK_TX_COUNT) (\<lambda>tx_count.
     let diff = sint (data_mempool_get_size dbs - (tx_count - 1)) in
     pending_loop (nat diff) 0 M dbs workblock)"

text \<open>One pass of the inner loop: the result, the buffer for the comparison and the work block.\<close>

definition work_pass :: "'d miner \<Rightarrow> 'd moment \<Rightarrow> bytes \<Rightarrow> uint \<Rightarrow> bytes \<Rightarrow> bytes \<Rightarrow> (pass \<times> bytes \<times> bytes) res" where
  "work_pass M m latest_block_hash target cmp_buffer workblock =
     (let E = env_m M in
      rbind (chain_get_height E (dbs_m m)) (\<lambda>height.
      let cmp_buffer = snd (chain_get E (dbs_m m) height cmp_buffer) in
      rbind (mem_read cmp_buffer 0 SIZE_SHA256) (\<lambda>x.
      rbind (mem_read latest_block_hash 0 SIZE_SHA256) (\<lambda>y.
      if x \<noteq> y then Inr (Stale, cmp_buffer, workblock)
      else
        rbind (add_pending M (dbs_m m) workblock) (\<lambda>workblock.
        rbind (uitob (time_header m) workblock POS_BLOCK_TIME) (\<lambda>workblock.
        rbind (case mine (host E) (is_valid_blockhash M) (clock_m m) (ctx_m m) (hash_m m) workblock (ucast target) 10000 of
                 None \<Rightarrow> Inl Diverges | Some r \<Rightarrow> r) (\<lambda>(found, workblock).
        Inr (Mined found, cmp_buffer, workblock))))))))"

text \<open>The inner loop, with the blocks it found (a hash and the work block), and the outer loop.\<close>

primrec work_loop :: "'d moment list \<Rightarrow> 'd miner \<Rightarrow> bytes \<Rightarrow> uint \<Rightarrow> bytes \<Rightarrow> bytes \<Rightarrow> ((bytes \<times> bytes) list \<times> bytes \<times> bytes) res" where
  "work_loop [] M latest_block_hash target cmp_buffer workblock = Inr ([], cmp_buffer, workblock)"
| "work_loop (m # ms) M latest_block_hash target cmp_buffer workblock =
     rbind (work_pass M m latest_block_hash target cmp_buffer workblock) (\<lambda>(p, cmp_buffer, workblock).
     case p of Stale \<Rightarrow> Inr ([], cmp_buffer, workblock)
     | Mined found \<Rightarrow>
         rbind (work_loop ms M latest_block_hash target cmp_buffer workblock) (\<lambda>(log, cmp_buffer, workblock').
         Inr ((case found of None \<Rightarrow> log | Some hash \<Rightarrow> (hash, workblock) # log), cmp_buffer, workblock')))"

primrec main_loop ::
  "('d moment \<times> 'd moment list) list \<Rightarrow> 'd miner \<Rightarrow> bytes \<Rightarrow> bytes \<Rightarrow> bytes \<Rightarrow> bytes \<Rightarrow> ((bytes \<times> bytes) list \<times> bytes) res" where
  "main_loop [] M miner_addr latest_block_hash cmp_buffer workblock = Inr ([], workblock)"
| "main_loop (r # rs) M miner_addr latest_block_hash cmp_buffer workblock =
     rbind (new_workblock M miner_addr (fst r) latest_block_hash workblock) (\<lambda>(latest_block_hash, target, workblock).
     rbind (work_loop (snd r) M latest_block_hash target cmp_buffer workblock) (\<lambda>(log, cmp_buffer, workblock).
     rbind (main_loop rs M miner_addr latest_block_hash cmp_buffer workblock) (\<lambda>(log', workblock).
     Inr (log @ log', workblock))))"

text \<open>
  \<^verbatim>\<open>main\<close>, with the result of \<^verbatim>\<open>join_network\<close>, the databases before and after the ten seconds in which the node updates itself, and the rounds of
  the main loop.
\<close>

definition miner_main ::
  "'d miner \<Rightarrow> nat \<Rightarrow> bytes \<Rightarrow> unit res \<Rightarrow> 'd dbs \<Rightarrow> 'd dbs \<Rightarrow> ('d moment \<times> 'd moment list) list \<Rightarrow> ((bytes \<times> bytes) list \<times> bytes) res" where
  "miner_main M argc arg join_network dbs_before dbs_after rounds =
     (let E = env_m M in
      rbind (main_args argc arg (junk_e E SIZE_SHA256)) (\<lambda>(arg, miner_addr).
      rbind join_network (\<lambda>_.
      rbind (latest_block E dbs_before (junk_e E SIZE_SHA256)) (\<lambda>(latest_block_height, latest_block_hash).
      rbind (latest_block_post_update E dbs_after latest_block_hash) (\<lambda>(latest_block_height, latest_block_hash).
      main_loop rounds M miner_addr latest_block_hash (junk_e E SIZE_SHA256) (junk_e E (unat MAX_BLOCK_SIZE)))))))"

text \<open>The program always ends, or faults, at its arguments.\<close>

lemma miner_main_never_mines:
  "length (junk_e (env_m M) SIZE_SHA256) = SIZE_SHA256 \<Longrightarrow> isl (miner_main M argc arg join_network dbs_before dbs_after rounds)"
  by (simp add: miner_main_def main_args_never_pass Let_def)

subsection \<open>The root of a mined block\<close>

definition root_kept :: "bytes \<Rightarrow> bytes \<Rightarrow> bool" where
  "root_kept b b' \<longleftrightarrow> length b' = length b \<and> segment b' POS_BLOCK_MERKLE_ROOT SIZE_SHA256 = segment b POS_BLOCK_MERKLE_ROOT SIZE_SHA256"

lemma root_kept_refl [simp]: "root_kept b b"
  by (simp add: root_kept_def)

lemma root_kept_trans [trans]: "root_kept a b \<Longrightarrow> root_kept b c \<Longrightarrow> root_kept a c"
  by (simp add: root_kept_def)

lemma root_kept_patch:
  "83 \<le> length b \<Longrightarrow> off + length xs \<le> length b \<Longrightarrow> off + length xs \<le> 42 \<or> 74 \<le> off \<Longrightarrow> root_kept b (patch b off xs)"
  by (auto simp: root_kept_def mem_simps)

lemma root_kept_uitob:
  "83 \<le> length b \<Longrightarrow> uitob v b off = Inr b' \<Longrightarrow> off + 4 \<le> 42 \<or> 74 \<le> off \<Longrightarrow> root_kept b b'"
  by (cases "off + 4 \<le> length b") (auto simp: uitob_ok uitob_err root_kept_patch)

lemma block_size_loop_ge:
  assumes "\<forall>b off. f b off \<le> MAX_TX_SIZE"
  shows "unat cursor + n * 1048576 < 2 ^ 32 \<Longrightarrow> unat cursor \<le> unat (block_size_loop n f b cursor)"
proof (induction n arbitrary: cursor)
  case (Suc n)
  have "unat (f b (unat cursor)) \<le> 1048576" using assms by (simp add: word_le_nat_alt)
  with Suc.prems have "unat (cursor + f b (unat cursor)) = unat cursor + unat (f b (unat cursor))"
    by (simp add: unat_word_ariths)
  with Suc.IH [of "cursor + f b (unat cursor)"] Suc.prems \<open>unat (f b (unat cursor)) \<le> 1048576\<close> show ?case by simp
qed simp

lemma block_compute_size_ge:
  assumes "\<forall>b off. f b off \<le> MAX_TX_SIZE"
  shows "83 \<le> unat (block_compute_size base f b)"
proof -
  let ?n = "unat (ucast (base + 79) :: uchar)"
  have "?n < 256" using unsigned_less [of "ucast (base + 79) :: uchar"] by simp
  then have "?n * 1048576 \<le> 255 * 1048576" by (intro mult_right_mono) linarith+
  then have "unat (83 :: uint) + ?n * 1048576 < 2 ^ 32" by simp
  from block_size_loop_ge [OF assms this] show ?thesis by (simp add: block_compute_size_def)
qed

lemma root_kept_block_add_tx:
  assumes "\<forall>b off. f b off \<le> MAX_TX_SIZE" "83 \<le> length b" "block_add_tx base f e b tx = Inr b'"
  shows "root_kept b b'"
proof -
  obtain d n where d: "memcpy b (unat (block_compute_size base f b)) d 0 (unat (size_t tx)) = Inr n"
    and "\<exists>v. uitob v n POS_BLOCK_TX_COUNT = Inr b'"
    using assms(3) by (auto simp: block_add_tx_def Let_def rbind_eq_Inr split: if_split_asm option.splits)
  moreover from d have "root_kept b n"
    using block_compute_size_ge [OF assms(1), where base = base and b = b] assms(2)
    by (auto simp: memcpy_def mem_read_def mem_write_def rbind_eq_Inr split: if_split_asm intro!: root_kept_patch)
  moreover from this have "83 \<le> length n" using assms(2) by (simp add: root_kept_def)
  ultimately show ?thesis using root_kept_uitob [of n _ 79 b'] by (auto intro: root_kept_trans)
qed

text \<open>A miner whose transactions have at most the maximal size.\<close>

definition sizes_ok :: "'d miner \<Rightarrow> bool" where
  "sizes_ok M \<longleftrightarrow> (\<forall>b. tx_compute_size (ext_e (env_m M)) b \<le> MAX_TX_SIZE)"

lemma root_kept_add_tx: "sizes_ok M \<Longrightarrow> 83 \<le> length b \<Longrightarrow> add_tx M b tx = Inr b' \<Longrightarrow> root_kept b b'"
  unfolding add_tx_def by (rule root_kept_block_add_tx) (auto simp: sizes_ok_def)

lemma root_kept_pending_loop:
  "sizes_ok M \<Longrightarrow> 83 \<le> length b \<Longrightarrow> pending_loop n i M dbs b = Inr b' \<Longrightarrow> root_kept b b'"
proof (induction n arbitrary: i b)
  case (Suc n)
  then obtain tx d where "add_tx M b tx = Inr d" and rest: "pending_loop n (i + 1) M dbs d = Inr b'"
    by (auto simp: rbind_eq_Inr split: option.splits)
  then have k: "root_kept b d" using root_kept_add_tx Suc.prems by blast
  then have "83 \<le> length d" using Suc.prems(2) by (simp add: root_kept_def)
  with Suc.IH Suc.prems(1) rest k show ?case by (blast intro: root_kept_trans)
qed simp

lemma root_kept_mine_loop:
  "mine_loop e v g te cl k ctx h b = Some r \<Longrightarrow> 83 \<le> length b \<Longrightarrow> r = Inr (f, b') \<Longrightarrow> root_kept b b'"
proof (induction arbitrary: f b' rule: mine_loop.raw_induct [rotated 1, consumes 1])
  case (1 loop e v g te cl k ctx h b r)
  show ?case
  proof (cases "cl k < te \<and> r \<noteq> Inr (f, b)")
    case True
    with 1 obtain ctx' h' d where "block_inc_nonce e b = Inr d" and rest: "loop e v g te cl (k + 1) ctx' h' d = Some r"
      by (auto split: sum.splits if_split_asm prod.splits)
    then have k: "root_kept b d" using 1(3) by (auto simp: block_inc_nonce_def rbind_eq_Inr intro: root_kept_uitob)
    then have "83 \<le> length d" using 1(3) by (simp add: root_kept_def)
    with 1(1) [OF rest] 1(4) k show ?thesis by (blast intro: root_kept_trans)
  next
    case False
    with 1 show ?thesis by (auto split: if_split_asm)
  qed
qed

lemma root_kept_work_pass:
  assumes "sizes_ok M" "83 \<le> length b" "work_pass M m l g cmp b = Inr (p, cmp', b')"
  shows "root_kept b b'"
proof (cases p)
  case Stale
  with assms(3) show ?thesis by (auto simp: work_pass_def Let_def rbind_eq_Inr split: if_split_asm)
next
  case (Mined found)
  with assms(3) obtain n b1 b2 te cl ctx h where
    b1: "pending_loop n 0 M (dbs_m m) b = Inr b1" and b2: "uitob (time_header m) b1 POS_BLOCK_TIME = Inr b2"
    and b3: "mine_loop (host (env_m M)) (is_valid_blockhash M) (ucast g) te cl 1 ctx h b2 = Some (Inr (found, b'))"
    by (auto simp: work_pass_def add_pending_def mine_def Let_def rbind_eq_Inr split: if_split_asm option.splits)
  have "root_kept b b1" by (rule root_kept_pending_loop [OF assms(1,2) b1])
  moreover have "root_kept b1 b2" using root_kept_uitob [OF _ b2] calculation assms(2) by (simp add: root_kept_def)
  moreover have "root_kept b2 b'" using root_kept_mine_loop [OF b3 _ refl] calculation assms(2) by (simp add: root_kept_def)
  ultimately show ?thesis by (blast intro: root_kept_trans)
qed

lemma work_loop_roots:
  "sizes_ok M \<Longrightarrow> 83 \<le> length b \<Longrightarrow> work_loop ms M l g cmp b = Inr (log, cmp', b')
   \<Longrightarrow> root_kept b b' \<and> (\<forall>(hash, found) \<in> set log. root_kept b found)"
proof (induction ms arbitrary: cmp b log)
  case (Cons m ms)
  from Cons.prems(3) obtain p cmp1 b1 where pass: "work_pass M m l g cmp b = Inr (p, cmp1, b1)"
    and rest: "(case p of Stale \<Rightarrow> Inr ([], cmp1, b1)
      | Mined found \<Rightarrow> rbind (work_loop ms M l g cmp1 b1) (\<lambda>(log, cmp_buffer, workblock').
         Inr ((case found of None \<Rightarrow> log | Some hash \<Rightarrow> (hash, b1) # log), cmp_buffer, workblock'))) = Inr (log, cmp', b')"
    by (auto simp: rbind_eq_Inr)
  have k: "root_kept b b1" by (rule root_kept_work_pass [OF Cons.prems(1,2) pass])
  show ?case
  proof (cases p)
    case Stale
    with rest k show ?thesis by simp
  next
    case (Mined found)
    with rest obtain log1 where "work_loop ms M l g cmp1 b1 = Inr (log1, cmp', b')"
      "log = (case found of None \<Rightarrow> log1 | Some hash \<Rightarrow> (hash, b1) # log1)"
      by (auto simp: rbind_eq_Inr)
    moreover have "83 \<le> length b1" using k Cons.prems(2) by (simp add: root_kept_def)
    ultimately show ?thesis
      using Cons.IH [of b1 cmp1 log1] Cons.prems(1) k by (auto split: option.splits intro: root_kept_trans)
  qed
qed simp

lemma block_add_header_lengths:
  "block_add_header v t h prev g b = Inr b' \<Longrightarrow> 83 \<le> length b"
  "block_add_header v t h prev g b = Inr b' \<Longrightarrow> 32 \<le> length prev"
  by (auto simp: block_add_header_def rbind_eq_Inr writes_Inr mem_simps)

lemma new_workblock_root:
  assumes "sizes_ok M" "new_workblock M addr m l b = Inr (l', g, b')"
  shows "length b' = length b \<and> 83 \<le> length b \<and> segment b' POS_BLOCK_MERKLE_ROOT SIZE_SHA256 = replicate SIZE_SHA256 0"
proof -
  obtain v t h b1 tx where hd: "block_add_header v t h l' (ucast g) b = Inr b1" and tx: "add_tx M b1 tx = Inr b'"
    using assms(2) by (auto simp: new_workblock_def Let_def rbind_eq_Inr)
  have len: "83 \<le> length b" "32 \<le> length l'" using hd by (rule block_add_header_lengths)+
  then have "b1 = patch b 0 (header_bytes v t h l' (ucast g))" using hd by (simp add: block_add_header_ok)
  then have "length b1 = length b" "segment b1 42 32 = replicate 32 0"
    using len segment_patch_inside [of 0 "header_bytes v t h l' (ucast g)" b 42 32]
    by (simp_all add: mem_simps length_header_bytes) (simp add: header_bytes_def segment_def)
  moreover have "root_kept b1 b'" using root_kept_add_tx [OF assms(1) _ tx] len calculation by simp
  ultimately show ?thesis using len by (simp add: root_kept_def)
qed

definition no_root :: "bytes \<Rightarrow> bool" where
  "no_root b \<longleftrightarrow> segment b POS_BLOCK_MERKLE_ROOT SIZE_SHA256 = replicate SIZE_SHA256 0"

lemma main_loop_roots:
  "sizes_ok M \<Longrightarrow> main_loop rs M addr l cmp b = Inr (log, b')
   \<Longrightarrow> (rs \<noteq> [] \<or> no_root b \<longrightarrow> no_root b') \<and> (\<forall>(hash, found) \<in> set log. no_root found)"
proof (induction rs arbitrary: l cmp b log)
  case (Cons r rs)
  from Cons.prems(2) obtain l1 g b1 log1 cmp1 b2 log2 where new: "new_workblock M addr (fst r) l b = Inr (l1, g, b1)"
    and work: "work_loop (snd r) M l1 g cmp b1 = Inr (log1, cmp1, b2)"
    and rest: "main_loop rs M addr l1 cmp1 b2 = Inr (log2, b')" and log: "log = log1 @ log2"
    by (auto simp: rbind_eq_Inr)
  have b1: "no_root b1" "83 \<le> length b1" using new_workblock_root [OF Cons.prems(1) new] by (auto simp: no_root_def)
  have "no_root b2 \<and> (\<forall>(hash, found) \<in> set log1. no_root found)"
    using work_loop_roots [OF Cons.prems(1) b1(2) work] b1(1) by (auto simp: no_root_def root_kept_def)
  with Cons.IH [OF Cons.prems(1) rest] log show ?case by auto
qed simp


definition some_miner :: "(bytes \<times> bytes) list miner" where
  "some_miner = \<lparr>env_m = some_env, target_m = some_target_ext, version_m = 1, base_m = 177, is_valid_blockhash = (\<lambda>h t. True)\<rparr>"

definition some_moment :: "(bytes \<times> bytes) list moment" where
  "some_moment = \<lparr>dbs_m = some_dbs, time_target = 5, time_header = 5, clock_m = (\<lambda>k. if k = 0 then 0 else 20000), ctx_m = some_ctx,
     hash_m = replicate 32 0\<rparr>"

definition mined :: bytes where
  "mined = [0, 1, 0, 0, 0, 5, 0, 0, 0, 8, 3] @ replicate 71 0 @ [1, 0, 1, 0, 0, 0, 1] @ replicate 4 0 @ replicate 32 9 @ [0, 0, 0, 100]"

lemma mined_run:
  "main_loop [(some_moment, [some_moment])] some_miner (replicate 32 9) (replicate 32 0) (replicate 32 0) (replicate 129 0)
   = Inr ([], mined)"
  by code_simp


subsection \<open>Pending transactions\<close>

text \<open>A pool that holds a list of transactions, and adding a list of transactions to a block.\<close>

definition pool_holds :: "'d dbs \<Rightarrow> m_tx list \<Rightarrow> bool" where
  "pool_holds dbs txs \<longleftrightarrow> take (length txs) (slots (mempool_d dbs)) = map Some txs \<and>
     unat (count_m (mempool_d dbs)) = length txs \<and> length txs < 2 ^ 31"

primrec add_all :: "'d miner \<Rightarrow> m_tx list \<Rightarrow> bytes \<Rightarrow> bytes res" where
  "add_all M [] b = Inr b"
| "add_all M (tx # txs) b = rbind (add_tx M b tx) (add_all M txs)"

lemma pool_get:
  assumes "pool_holds dbs txs" "i < length txs"
  shows "data_mempool_get dbs (word_of_nat i) = Inr (Some (txs ! i))"
proof -
  have i: "unat (word_of_nat i :: uint) = i" using assms by (simp add: pool_holds_def unsigned_of_nat take_bit_eq_mod)
  have t: "take (length txs) (slots (mempool_d dbs)) = map Some txs" using assms(1) by (simp add: pool_holds_def)
  have "slots (mempool_d dbs) ! i = take (length txs) (slots (mempool_d dbs)) ! i" using assms(2) by simp
  then have "slots (mempool_d dbs) ! i = Some (txs ! i)" using t assms(2) by simp
  moreover have "i < length (slots (mempool_d dbs))" using arg_cong [OF t, of length] assms(2) by simp
  ultimately have "slots (mempool_d dbs) ! i = Some (txs ! i)" "i < length (slots (mempool_d dbs))" by simp_all
  with assms i show ?thesis by (simp add: data_mempool_get_def word_le_nat_alt pool_holds_def)
qed

lemma pending_loop_eq:
  "pool_holds dbs txs \<Longrightarrow> i + n \<le> length txs \<Longrightarrow> pending_loop n i M dbs b = add_all M (take n (drop i txs)) b"
proof (induction n arbitrary: i b)
  case (Suc n)
  then have "take (Suc n) (drop i txs) = txs ! i # take n (drop (i + 1) txs)"
    by (simp add: take_Suc_conv_app_nth Cons_nth_drop_Suc [symmetric])
  with Suc show ?case by (simp add: pool_get rbind_def split: sum.split)
qed simp

lemma add_pending_eq:
  assumes "host (env_m M) = Big" "pool_holds dbs txs" "btoui Big b POS_BLOCK_TX_COUNT = Inr (word_of_nat (1 + k))" "k \<le> length txs"
  shows "add_pending M dbs b = add_all M (take (length txs - k) txs) b"
proof -
  have "count_m (mempool_d dbs) = word_of_nat (length txs)" using assms(2) by (metis pool_holds_def of_nat_unat ucast_id)
  then have "data_mempool_get_size dbs - (word_of_nat (1 + k) - 1) = word_of_nat (length txs - k)"
    using assms(4) by (simp add: data_mempool_get_size_def of_nat_diff)
  moreover have "sint (word_of_nat (length txs - k) :: uint) = int (length txs - k)"
    using assms(2) by (simp add: pool_holds_def signed_of_nat) (rule signed_take_bit_int_eq_self; auto)
  ultimately show ?thesis
    using assms(1,3) pending_loop_eq [OF assms(2), of 0 "length txs - k"] by (simp add: add_pending_def)
qed

lemma add_tx_count:
  assumes "sizes_ok M" "host (env_m M) = Big" "83 \<le> length b" "btoui Big b POS_BLOCK_TX_COUNT = Inr n" "add_tx M b tx = Inr b'"
  shows "length b' = length b \<and> btoui Big b' POS_BLOCK_TX_COUNT = Inr (n + 1)"
proof -
  let ?f = "\<lambda>b off. tx_compute_size (ext_e (env_m M)) (drop off b)" and ?off = "unat (block_compute_size (base_m M) (\<lambda>b off. tx_compute_size (ext_e (env_m M)) (drop off b)) b)"
  have off: "83 \<le> ?off" using assms(1) by (intro block_compute_size_ge) (simp add: sizes_ok_def)
  obtain b1 d m where b1: "memcpy b ?off d 0 (unat (size_t tx)) = Inr b1" and m: "btoui Big b1 79 = Inr m" and b': "uitob (m + 1) b1 79 = Inr b'"
    using assms(2,5) by (auto simp: add_tx_def block_add_tx_def Let_def rbind_eq_Inr split: if_split_asm option.splits)
  have l: "length b1 = length b" using b1 by (auto simp: writes_Inr mem_simps)
  have "btoui Big b1 79 = btoui Big b 79"
    using b1 off assms(3) by (auto simp: writes_Inr mem_simps intro!: u32.get_patched_elsewhere)
  with m assms(4) have "m = n" by simp
  with b' l assms(3) show ?thesis by (auto simp: writes_Inr mem_simps btoui_ok)
qed

lemma add_all_count:
  "sizes_ok M \<Longrightarrow> host (env_m M) = Big \<Longrightarrow> 83 \<le> length b \<Longrightarrow> btoui Big b POS_BLOCK_TX_COUNT = Inr n \<Longrightarrow> add_all M txs b = Inr b'
   \<Longrightarrow> length b' = length b \<and> btoui Big b' POS_BLOCK_TX_COUNT = Inr (n + word_of_nat (length txs))"
proof (induction txs arbitrary: b n)
  case (Cons tx txs)
  from Cons.prems(5) obtain b1 where b1: "add_tx M b tx = Inr b1" and rest: "add_all M txs b1 = Inr b'"
    by (auto simp: rbind_eq_Inr)
  from add_tx_count [OF Cons.prems(1-4) b1] Cons.IH [OF Cons.prems(1,2) _ _ rest, of "n + 1"] Cons.prems(3) show ?case
    by (simp add: ac_simps)
qed simp


definition plain_tx :: "uchar \<Rightarrow> m_tx" where
  "plain_tx x = \<lparr>hash_t = None, data_t = Some [x], size_t = 1, max_t = 1\<rparr>"

definition pool_dbs :: "m_tx list \<Rightarrow> (bytes \<times> bytes) list dbs" where
  "pool_dbs txs = some_dbs\<lparr>mempool_d := \<lparr>slots = map Some txs, count_m = word_of_nat (length txs)\<rparr>\<rparr>"

lemma pool_dbs_holds: "length txs < 2 ^ 31 \<Longrightarrow> pool_holds (pool_dbs txs) txs"
  by (simp add: pool_holds_def pool_dbs_def unsigned_of_nat take_bit_eq_mod)


end
