(* ===== verification/Locks.thy ===== *)
theory Locks
  imports Network
begin

text \<open>
  The mutexes of \<^verbatim>\<open>src/src/network.c\<close> and \<^verbatim>\<open>src/src/build.c\<close>: every thread that runs \<^verbatim>\<open>handle_connection\<close> locks and unlocks
  \<^verbatim>\<open>peers_mutex\<close> and the mutex of the pool while it handles a message. What a handler does under a lock is in theory \<open>Network\<close>; here
  it is the sequence of its locks, unlocks and uses of the pool, and any number of threads with any messages are interleaved. A mutex is a default one, as
  in theory \<open>Join\<close>.
\<close>

subsection \<open>What a handler locks\<close>

datatype mutex = Peers_mutex | Mempool_mutex

datatype lock_op = Lock mutex | Unlock mutex | Use_pool

text \<open>
  A received message: its content type, its data type, and for a block whether the scan of limbo that follows switches branches;
  \<^verbatim>\<open>data_blocks_revert\<close> then calls \<^verbatim>\<open>data_mempool_add\<close> and \<^verbatim>\<open>data_mempool_del\<close>.
\<close>

record received =
  ctype_r :: uchar
  dtype_r :: uchar
  switches :: bool

definition handler_ops :: "received \<Rightarrow> lock_op list" where
  "handler_ops r =
     (if ctype_r r = CTYPE_MEMPOOL then [Lock Mempool_mutex, Use_pool, Unlock Mempool_mutex]
      else if ctype_r r = CTYPE_GETDATA then
        (if dtype_r r = DTYPE_TX then [Lock Mempool_mutex, Use_pool, Unlock Mempool_mutex]
         else if dtype_r r = DTYPE_NODE then [Lock Peers_mutex, Unlock Peers_mutex]
         else [])
      else if ctype_r r = CTYPE_BLOCK then
        [Lock Peers_mutex] @ (if switches r then [Use_pool] else []) @ [Unlock Peers_mutex]
      else if ctype_r r = CTYPE_TX then [Lock Mempool_mutex, Use_pool, Unlock Mempool_mutex]
      else [])"

subsection \<open>Interleaving\<close>

text \<open>What each thread has left to do, and the thread that holds each mutex.\<close>

record lock_st =
  progs :: "lock_op list list"
  holder :: "mutex \<Rightarrow> nat option"

text \<open>A step of thread \<open>t\<close>.\<close>

definition thread_step :: "nat \<Rightarrow> lock_st \<Rightarrow> lock_st option" where
  "thread_step t s =
     (if t < length (progs s) then
        (case progs s ! t of
           [] \<Rightarrow> None
         | Lock m # ops \<Rightarrow>
             (if holder s m = None then Some \<lparr>progs = (progs s)[t := ops], holder = (holder s)(m := Some t)\<rparr> else None)
         | Unlock m # ops \<Rightarrow> Some \<lparr>progs = (progs s)[t := ops], holder = (holder s)(m := None)\<rparr>
         | Use_pool # ops \<Rightarrow> Some (s\<lparr>progs := (progs s)[t := ops]\<rparr>))
      else None)"

inductive lock_step :: "lock_st \<Rightarrow> lock_st \<Rightarrow> bool" where
  thread: "thread_step t s = Some s' \<Longrightarrow> lock_step s s'"

inductive_cases lock_stepE: "lock_step s s'"

text \<open>Threads that have received given messages and hold nothing.\<close>

definition handlers :: "received list list \<Rightarrow> lock_st" where
  "handlers rs = \<lparr>progs = map (\<lambda>r. concat (map handler_ops r)) rs, holder = (\<lambda>m. None)\<rparr>"

subsection \<open>One mutex at a time\<close>

text \<open>The operations from a point on, with the mutex held there: never two mutexes, and the pool only under \<open>G\<close>.\<close>

fun disciplined :: "mutex set \<Rightarrow> mutex option \<Rightarrow> lock_op list \<Rightarrow> bool" where
  "disciplined G None [] = True"
| "disciplined G None (Lock m # ops) = disciplined G (Some m) ops"
| "disciplined G (Some m) (Unlock m' # ops) = (m' = m \<and> disciplined G None ops)"
| "disciplined G (Some m) (Use_pool # ops) = (m \<in> G \<and> disciplined G (Some m) ops)"
| "disciplined G h ops = False"

lemma disciplined_append: "disciplined G h xs \<Longrightarrow> disciplined G None ys \<Longrightarrow> disciplined G h (xs @ ys)"
  by (induction G h xs rule: disciplined.induct) auto

lemma disciplined_concat: "\<forall>xs \<in> set xss. disciplined G None xs \<Longrightarrow> disciplined G None (concat xss)"
  by (induction xss) (auto intro: disciplined_append)

lemma disciplined_handler: "disciplined UNIV None (handler_ops r)"
  by (simp add: handler_ops_def)

lemma disciplined_handler_pool:
  "\<not> (ctype_r r = CTYPE_BLOCK \<and> switches r) \<Longrightarrow> disciplined {Mempool_mutex} None (handler_ops r)"
  by (auto simp: handler_ops_def)

text \<open>The invariant: every thread is disciplined, with exactly the mutex that it holds.\<close>

definition lock_inv :: "mutex set \<Rightarrow> lock_st \<Rightarrow> bool" where
  "lock_inv G s \<longleftrightarrow> (\<forall>m t. holder s m = Some t \<longrightarrow> t < length (progs s)) \<and>
     (\<forall>t < length (progs s). \<exists>h. disciplined G h (progs s ! t) \<and> (\<forall>m. holder s m = Some t \<longleftrightarrow> h = Some m))"

definition lock_init :: "mutex set \<Rightarrow> lock_st \<Rightarrow> bool" where
  "lock_init G s \<longleftrightarrow> (\<forall>m. holder s m = None) \<and> (\<forall>p \<in> set (progs s). disciplined G None p)"

lemma disciplined_iff:
  "disciplined G h [] \<longleftrightarrow> h = None"
  "disciplined G h (Lock m # ops) \<longleftrightarrow> h = None \<and> disciplined G (Some m) ops"
  "disciplined G h (Unlock m # ops) \<longleftrightarrow> h = Some m \<and> disciplined G None ops"
  "disciplined G h (Use_pool # ops) \<longleftrightarrow> (\<exists>m \<in> G. h = Some m \<and> disciplined G h ops)"
  by (cases h; auto)+

text \<open>A step of a thread touches only its own operations and mutexes.\<close>

lemma lock_inv_update:
  assumes inv: "lock_inv G s" and t: "t < length (progs s)" and h: "disciplined G h ops" "\<And>m. H m = Some t \<longleftrightarrow> h = Some m"
    and other: "\<And>m u. u \<noteq> t \<Longrightarrow> H m = Some u \<longleftrightarrow> holder s m = Some u"
  shows "lock_inv G \<lparr>progs = (progs s)[t := ops], holder = H\<rparr>"
proof -
  have "u < length (progs s)" if "H m = Some u" for m u
    using that other inv t by (cases "u = t") (auto simp: lock_inv_def)
  moreover have "\<exists>h. disciplined G h ((progs s)[t := ops] ! u) \<and> (\<forall>m. H m = Some u \<longleftrightarrow> h = Some m)" if "u < length (progs s)" for u
    using that other inv t h by (cases "u = t") (auto simp: lock_inv_def)
  ultimately show ?thesis by (auto simp: lock_inv_def)
qed

lemma thread_step_inv:
  assumes inv: "lock_inv G s" and step: "thread_step t s = Some s'"
  shows "lock_inv G s'"
proof -
  have t: "t < length (progs s)" using step by (simp add: thread_step_def split: if_splits)
  obtain op ops where p: "progs s ! t = op # ops" using step by (cases "progs s ! t") (auto simp: thread_step_def t)
  obtain h where h: "disciplined G h (op # ops)" "\<And>m. holder s m = Some t \<longleftrightarrow> h = Some m"
    using inv t p by (metis lock_inv_def)
  show ?thesis
  proof (cases op)
    case (Lock m)
    with step p t have "holder s m = None" "s' = \<lparr>progs = (progs s)[t := ops], holder = (holder s)(m := Some t)\<rparr>"
      by (auto simp: thread_step_def split: if_splits)
    with Lock h show ?thesis by (auto simp: disciplined_iff split: if_splits intro!: lock_inv_update [OF inv t, of "Some m"])
  next
    case (Unlock m)
    with step p t have "s' = \<lparr>progs = (progs s)[t := ops], holder = (holder s)(m := None)\<rparr>" by (simp add: thread_step_def)
    moreover have own: "holder s n = Some t \<longleftrightarrow> n = m" for n using h Unlock by (auto simp: disciplined_iff)
    moreover have "((holder s)(m := None)) n = Some u \<longleftrightarrow> holder s n = Some u" if "u \<noteq> t" for n u
      using own [of m] that by auto
    ultimately show ?thesis
      using Unlock h(1) by (auto simp: disciplined_iff split: if_splits intro!: lock_inv_update [OF inv t, of None])
  next
    case Use_pool
    with step p t have "s' = \<lparr>progs = (progs s)[t := ops], holder = holder s\<rparr>" by (cases s) (auto simp: thread_step_def)
    with Use_pool h show ?thesis by (auto simp: disciplined_iff intro!: lock_inv_update [OF inv t, of h])
  qed
qed

interpretation locking: inv_system "lock_init G" lock_step "\<lambda>s. lock_inv G" for G
proof unfold_locales
  show "lock_inv G s" if "lock_init G s" for s
    using that by (auto simp: lock_init_def lock_inv_def dest!: nth_mem)
  show "lock_inv G u" if "lock_init G s" "lock_inv G t" "lock_step t u" for s t u
    using that(2,3) by (auto elim!: lock_stepE intro: thread_step_inv)
qed

lemma handlers_init: "lock_init UNIV (handlers rs)"
  by (auto simp: lock_init_def handlers_def intro!: disciplined_concat disciplined_handler)

lemma handlers_init_pool:
  "\<forall>r \<in> set (concat rs). \<not> (ctype_r r = CTYPE_BLOCK \<and> switches r) \<Longrightarrow> lock_init {Mempool_mutex} (handlers rs)"
  by (auto simp: lock_init_def handlers_def intro!: disciplined_concat disciplined_handler_pool)

text \<open>A thread that holds a mutex can move; when none does, every thread with something left can.\<close>

lemma lock_inv_progress:
  assumes inv: "lock_inv G s" and t: "t < length (progs s)" "progs s ! t \<noteq> []"
  shows "\<exists>s'. lock_step s s'"
proof (cases "\<exists>m u. holder s m = Some u")
  case True
  then obtain m u where u: "holder s m = Some u" by blast
  then have lu: "u < length (progs s)" using inv by (simp add: lock_inv_def)
  then obtain h where h: "disciplined G h (progs s ! u)" "\<And>n. holder s n = Some u \<longleftrightarrow> h = Some n"
    using inv by (metis lock_inv_def)
  then have "h = Some m" using u by blast
  with h(1) obtain ops where "progs s ! u = Unlock m # ops \<or> progs s ! u = Use_pool # ops"
    by (cases "progs s ! u"; cases "hd (progs s ! u)") (auto simp: disciplined_iff)
  then have "thread_step u s \<noteq> None" using lu by (auto simp: thread_step_def)
  then show ?thesis by (auto intro: lock_step.thread)
next
  case False
  then have free: "holder s m = None" for m by (metis not_None_eq)
  then have "thread_step t s \<noteq> None"
    using t by (auto simp: thread_step_def split: list.splits lock_op.splits)
  then show ?thesis by (auto intro: lock_step.thread)
qed

subsection \<open>Deadlock freedom\<close>

definition work_left :: "lock_st \<Rightarrow> nat" where
  "work_left s = sum_list (map length (progs s))"

definition all_done :: "lock_st \<Rightarrow> bool" where
  "all_done s \<longleftrightarrow> (\<forall>p \<in> set (progs s). p = [])"

lemma lock_step_work: "lock_step s s' \<Longrightarrow> work_left s = Suc (work_left s')"
proof (elim lock_stepE)
  fix t assume step: "thread_step t s = Some s'"
  then have t: "t < length (progs s)" by (simp add: thread_step_def split: if_splits)
  obtain op ops where p: "progs s ! t = op # ops" using step by (cases "progs s ! t") (auto simp: thread_step_def t)
  then have "progs s' = (progs s)[t := ops]"
    using step t by (auto simp: thread_step_def split: lock_op.splits if_splits)
  moreover have "length (op # ops) \<le> sum_list (map length (progs s))"
    using elem_le_sum_list [of t "map length (progs s)"] t p by simp
  ultimately show ?thesis using t p by (simp add: work_left_def map_update sum_list_update)
qed

text \<open>Runs of a given length.\<close>

inductive lock_run :: "lock_st \<Rightarrow> nat \<Rightarrow> lock_st \<Rightarrow> bool" where
  none: "lock_run s 0 s"
| more: "lock_run s n t \<Longrightarrow> lock_step t u \<Longrightarrow> lock_run s (Suc n) u"

lemma lock_run_reach: "lock_run s n t \<Longrightarrow> init s \<Longrightarrow> reach init lock_step s t"
  by (induction rule: lock_run.induct) (auto intro: reach.intros)

lemma lock_run_work: "lock_run s n t \<Longrightarrow> work_left s = n + work_left t"
  by (induction rule: lock_run.induct) (auto dest: lock_step_work)


definition recv :: "uchar \<Rightarrow> received" where
  "recv ctype = \<lparr>ctype_r = ctype, dtype_r = DTYPE_TX, switches = True\<rparr>"

text \<open>A block and a transaction arrive; the thread of the block has taken its mutex, then the other one its own.\<close>

definition both_inside :: lock_st where
  "both_inside = \<lparr>progs = [[Use_pool, Unlock Peers_mutex], [Use_pool, Unlock Mempool_mutex]],
     holder = (\<lambda>m. None)(Peers_mutex := Some 0, Mempool_mutex := Some 1)\<rparr>"

lemma both_inside_run: "lock_run (handlers [[recv CTYPE_BLOCK], [recv CTYPE_TX]]) 2 both_inside"
proof -
  let ?s0 = "handlers [[recv CTYPE_BLOCK], [recv CTYPE_TX]]"
  have "thread_step 0 ?s0 = Some \<lparr>progs = [[Use_pool, Unlock Peers_mutex], [Lock Mempool_mutex, Use_pool, Unlock Mempool_mutex]],
      holder = (\<lambda>m. None)(Peers_mutex := Some 0)\<rparr>" (is "_ = Some ?s1")
    by (simp add: thread_step_def handlers_def recv_def handler_ops_def)
  moreover have "thread_step 1 ?s1 = Some both_inside"
    by (simp add: thread_step_def both_inside_def)
  ultimately have "lock_run ?s0 (Suc (Suc 0)) both_inside" by (blast intro: lock_run.intros lock_step.thread)
  then show ?thesis by (simp add: numeral_2_eq_2)
qed


subsection \<open>The pool\<close>

text \<open>Two threads are about to use the pool at the same time.\<close>

definition pool_race :: "lock_st \<Rightarrow> bool" where
  "pool_race s \<longleftrightarrow> (\<exists>t u ops ops'. t \<noteq> u \<and> t < length (progs s) \<and> u < length (progs s)
     \<and> progs s ! t = Use_pool # ops \<and> progs s ! u = Use_pool # ops')"

lemma lock_inv_no_race: "lock_inv {Mempool_mutex} s \<Longrightarrow> \<not> pool_race s"
proof
  assume inv: "lock_inv {Mempool_mutex} s" and "pool_race s"
  then obtain t u ops ops' where *: "t \<noteq> u" "t < length (progs s)" "u < length (progs s)"
    "progs s ! t = Use_pool # ops" "progs s ! u = Use_pool # ops'" by (auto simp: pool_race_def)
  have "holder s Mempool_mutex = Some v" if "v < length (progs s)" "progs s ! v = Use_pool # ops''" for v ops''
    using inv that unfolding lock_inv_def by (metis disciplined_iff(4) singletonD)
  with * show False by (metis option.inject)
qed

text \<open>
  The pool is used by one thread at a time, as the comment in \<^verbatim>\<open>data.c\<close> demands of all callers, as long as no received block switches
  branches. The switch under \<^verbatim>\<open>data_limbo_scan\<close> is the exception: it runs with \<^verbatim>\<open>peers_mutex\<close> held only, and a block and a
  transaction that arrive on two connections can be at the pool together.
\<close>

lemma pool_exclusive_without_switch:
  "(reach (\<lambda>s. s = handlers rs) lock_step s0 s \<and> (\<forall>r \<in> set (concat rs). \<not> (ctype_r r = CTYPE_BLOCK \<and> switches r)) \<longrightarrow> \<not> pool_race s)
   \<and> (\<exists>s. reach (\<lambda>s. s = handlers [[recv CTYPE_BLOCK], [recv CTYPE_TX]]) lock_step
         (handlers [[recv CTYPE_BLOCK], [recv CTYPE_TX]]) s \<and> pool_race s)"
proof (intro conjI impI)
  assume *: "reach (\<lambda>s. s = handlers rs) lock_step s0 s \<and> (\<forall>r \<in> set (concat rs). \<not> (ctype_r r = CTYPE_BLOCK \<and> switches r))"
  then have init: "lock_init {Mempool_mutex} (handlers rs)" by (intro handlers_init_pool) simp
  from * have "reach (\<lambda>s. s = handlers rs) lock_step s0 s" ..
  then have "reach (lock_init {Mempool_mutex}) lock_step s0 s"
    by (induction rule: reach.induct) (use init in \<open>auto intro: reach.intros\<close>)
  then show "\<not> pool_race s" using locking.reach_inv lock_inv_no_race by blast
next
  have "pool_race both_inside"
    unfolding pool_race_def by (rule exI [of _ 0], rule exI [of _ 1]) (simp add: both_inside_def)
  moreover have "reach (\<lambda>s. s = handlers [[recv CTYPE_BLOCK], [recv CTYPE_TX]]) lock_step
      (handlers [[recv CTYPE_BLOCK], [recv CTYPE_TX]]) both_inside"
    by (rule lock_run_reach [OF both_inside_run]) (rule refl)
  ultimately show "\<exists>s. reach (\<lambda>s. s = handlers [[recv CTYPE_BLOCK], [recv CTYPE_TX]]) lock_step
      (handlers [[recv CTYPE_BLOCK], [recv CTYPE_TX]]) s \<and> pool_race s"
    by (intro exI conjI)
qed

text \<open>Two transactions: the thread of the first is at the pool, the other one waits.\<close>

definition one_inside :: lock_st where
  "one_inside = \<lparr>progs = [[Use_pool, Unlock Mempool_mutex], [Lock Mempool_mutex, Use_pool, Unlock Mempool_mutex]],
     holder = (\<lambda>m. None)(Mempool_mutex := Some 0)\<rparr>"

lemma pool_exclusive_without_switch_witness:
  "reach (\<lambda>s. s = handlers [[recv CTYPE_TX], [recv CTYPE_TX]]) lock_step (handlers [[recv CTYPE_TX], [recv CTYPE_TX]]) one_inside
   \<and> \<not> pool_race one_inside"
proof -
  let ?rs = "[[recv CTYPE_TX], [recv CTYPE_TX]]"
  have "thread_step 0 (handlers ?rs) = Some one_inside"
    by (simp add: thread_step_def handlers_def recv_def handler_ops_def one_inside_def)
  then have "reach (\<lambda>s. s = handlers ?rs) lock_step (handlers ?rs) one_inside"
    by (blast intro: reach.intros lock_step.thread)
  moreover have "\<forall>r \<in> set (concat ?rs). \<not> (ctype_r r = CTYPE_BLOCK \<and> switches r)" by (simp add: recv_def)
  ultimately show ?thesis using pool_exclusive_without_switch [of ?rs "handlers ?rs" one_inside] by blast
qed

end
