(* ===== verification/Pool.thy ===== *)
theory Pool
  imports Locks
begin

text \<open>
  The pool under concurrent handlers. Theory \<open>Locks\<close> has the order of locks and uses, theory \<open>Data\<close> the effect of \<^verbatim>\<open>data_mempool_add\<close>; here the threads run
  the statements of \<^verbatim>\<open>data_mempool_add\<close>, one at a time and interleaved, on a shared pool. The machine projects to that of \<open>Locks\<close>, whose
  invariant says who may be at the pool. Handlers under the mutex refine handlers that run without interruption.
\<close>

subsection \<open>Threads with effects\<close>

datatype 'g act = Acquire mutex | Release mutex | Do "'g \<Rightarrow> 'g"

record 'g sys =
  threads :: "'g act list list"
  owners :: "mutex \<Rightarrow> nat option"
  shared :: 'g

definition act_step :: "nat \<Rightarrow> 'g sys \<Rightarrow> 'g sys option" where
  "act_step t s =
     (if t < length (threads s) then
        (case threads s ! t of
           [] \<Rightarrow> None
         | Acquire m # as \<Rightarrow>
             (if owners s m = None then Some (s\<lparr>threads := (threads s)[t := as], owners := (owners s)(m := Some t)\<rparr>) else None)
         | Release m # as \<Rightarrow> Some (s\<lparr>threads := (threads s)[t := as], owners := (owners s)(m := None)\<rparr>)
         | Do f # as \<Rightarrow> Some (s\<lparr>threads := (threads s)[t := as], shared := f (shared s)\<rparr>))
      else None)"

inductive sys_step :: "'g sys \<Rightarrow> 'g sys \<Rightarrow> bool" where
  thread: "act_step t s = Some s' \<Longrightarrow> sys_step s s'"

inductive_cases sys_stepE: "sys_step s s'"

text \<open>What the machine of \<open>Locks\<close> sees.\<close>

primrec lock_op_of :: "'g act \<Rightarrow> lock_op" where
  "lock_op_of (Acquire m) = Lock m"
| "lock_op_of (Release m) = Unlock m"
| "lock_op_of (Do f) = Use_pool"

definition locks_of :: "'g sys \<Rightarrow> lock_st" where
  "locks_of s = \<lparr>progs = map (map lock_op_of) (threads s), holder = owners s\<rparr>"

lemma act_step_locks: "act_step t s = Some s' \<Longrightarrow> thread_step t (locks_of s) = Some (locks_of s')"
  by (auto simp: act_step_def thread_step_def locks_of_def map_update split: if_splits list.splits act.splits)

text \<open>The rest of a section, up to its release, and the whole sections still to come, as functions.\<close>

fun finish :: "'g act list \<Rightarrow> 'g \<Rightarrow> 'g" where
  "finish (Do f # as) g = finish as (f g)"
| "finish as g = g"

fun sections :: "'g act list \<Rightarrow> ('g \<Rightarrow> 'g) list" where
  "sections [] = []"
| "sections (Acquire m # as) = (if m = Mempool_mutex then finish as # sections as else sections as)"
| "sections (a # as) = sections as"

text \<open>The state in which the section that is under way has been completed.\<close>

definition completed :: "'g sys \<Rightarrow> 'g" where
  "completed s = (case owners s Mempool_mutex of None \<Rightarrow> shared s | Some t \<Rightarrow> finish (threads s ! t) (shared s))"

text \<open>Taking elements from lists in some order: \<open>consumes xss ys zss\<close> when \<open>ys\<close> are taken off the fronts of \<open>xss\<close> and \<open>zss\<close> is left.\<close>

inductive consumes :: "'a list list \<Rightarrow> 'a list \<Rightarrow> 'a list list \<Rightarrow> bool" where
  none: "consumes xss [] xss"
| one: "consumes xss ys zss \<Longrightarrow> t < length zss \<Longrightarrow> zss ! t = z # zs \<Longrightarrow> consumes xss (ys @ [z]) (zss[t := zs])"

lemma consumes_map:
  "consumes (map (map f) xss) fs yss \<Longrightarrow> \<exists>xs zss. consumes xss xs zss \<and> fs = map f xs \<and> yss = map (map f) zss"
proof (induction "map (map f) xss" fs yss rule: consumes.induct)
  case none
  show ?case by (rule exI [of _ "[]"]) (auto intro: consumes.none)
next
  case (one ys zss t z zs)
  then obtain xs wss where w: "consumes xss xs wss" "ys = map f xs" "zss = map (map f) wss" by blast
  with one.hyps obtain x ws where "wss ! t = x # ws" "z = f x" "zs = map f ws" by auto
  with w one.hyps have "consumes xss (xs @ [x]) (wss[t := ws])" "ys @ [z] = map f (xs @ [x])" "zss[t := zs] = map (map f) (wss[t := ws])"
    by (auto intro: consumes.one simp: map_update)
  then show ?case by blast
qed

subsection \<open>Sections are atomic\<close>

text \<open>The simulation: a step is invisible, or it begins the next section of a thread, which then counts as done.\<close>

lemma act_step_simulates:
  assumes inv: "lock_inv {Mempool_mutex} (locks_of s)" and step: "act_step t s = Some s'"
  shows "(completed s' = completed s \<and> map sections (threads s') = map sections (threads s))
    \<or> (\<exists>f fs. sections (threads s ! t) = f # fs \<and> t < length (threads s) \<and> completed s' = f (completed s)
         \<and> map sections (threads s') = (map sections (threads s))[t := fs])"
proof -
  have t: "t < length (threads s)" using step by (simp add: act_step_def split: if_splits)
  obtain a as where p: "threads s ! t = a # as" using step by (cases "threads s ! t") (auto simp: act_step_def t)
  obtain h where h: "disciplined {Mempool_mutex} h (map lock_op_of (a # as))" "\<And>m. owners s m = Some t \<longleftrightarrow> h = Some m"
    using inv t p unfolding lock_inv_def locks_of_def by (metis (no_types, lifting) length_map lock_st.select_convs nth_map)
  have same: "map sections ((threads s)[t := as]) = map sections (threads s)" if "sections as = sections (threads s ! t)"
    using that t by (simp add: map_update list_update_same_conv)
  show ?thesis
  proof (cases a)
    case (Do f)
    then have "owners s Mempool_mutex = Some t" using h by (auto simp: disciplined_iff)
    with step p t Do same show ?thesis by (auto simp: act_step_def completed_def)
  next
    case (Release m)
    then have own: "owners s n = Some t \<longleftrightarrow> n = m" for n using h by (auto simp: disciplined_iff)
    have "completed s' = completed s"
      using step p t Release own [of Mempool_mutex] own [of m] by (auto simp: act_step_def completed_def nth_list_update split: option.splits)
    with step p t Release same show ?thesis by (auto simp: act_step_def)
  next
    case (Acquire m)
    then have free: "owners s n \<noteq> Some t" for n using h by (simp add: disciplined_iff)
    show ?thesis
    proof (cases "m = Mempool_mutex")
      case True
      with step p t Acquire show ?thesis by (auto simp: act_step_def completed_def map_update split: if_splits)
    next
      case False
      then have "completed s' = completed s"
        using step p t Acquire free by (auto simp: act_step_def completed_def nth_list_update split: if_splits option.splits)
      with step p t Acquire False same show ?thesis by (auto simp: act_step_def split: if_splits)
    qed
  qed
qed

text \<open>So a run of threads that use the pool only under its mutex has the effect of their sections, one after the other, in some order.\<close>

lemma sys_run_serial:
  assumes "reach (\<lambda>s. s = s0) sys_step s1 s" "lock_init {Mempool_mutex} (locks_of s0)"
  shows "lock_inv {Mempool_mutex} (locks_of s)
    \<and> (\<exists>fs. consumes (map sections (threads s0)) fs (map sections (threads s)) \<and> completed s = fold (\<lambda>f. f) fs (shared s0))"
  using assms(1)
proof (induction rule: reach.induct)
  case (start s)
  have "completed s0 = shared s0" using assms(2) by (simp add: completed_def lock_init_def locks_of_def)
  then show ?case using start locking.holds_initially [OF assms(2)] by (auto intro!: exI [of _ "[]"] consumes.none)
next
  case (further s1 s u)
  then obtain t where t: "act_step t s = Some u" by (auto elim: sys_stepE)
  from further.IH obtain fs where inv: "lock_inv {Mempool_mutex} (locks_of s)"
    and fs: "consumes (map sections (threads s0)) fs (map sections (threads s))" "completed s = fold (\<lambda>f. f) fs (shared s0)" by blast
  have "lock_inv {Mempool_mutex} (locks_of u)" using thread_step_inv [OF inv act_step_locks [OF t]] .
  moreover have "\<exists>fs. consumes (map sections (threads s0)) fs (map sections (threads u)) \<and> completed u = fold (\<lambda>f. f) fs (shared s0)"
    using act_step_simulates [OF inv t]
  proof (elim disjE exE conjE)
    fix f gs assume *: "sections (threads s ! t) = f # gs" "t < length (threads s)" "completed u = f (completed s)"
      "map sections (threads u) = (map sections (threads s))[t := gs]"
    then show ?thesis using fs consumes.one [OF fs(1), of t f gs] by (intro exI [of _ "fs @ [f]"]) simp
  qed (use fs in auto)
  ultimately show ?case by blast
qed

subsection \<open>The statements of \<open>data_mempool_add\<close>\<close>

text \<open>
  The shared state is the databases with the pool, or the fault that ended the program, and for each thread whether it has nothing more to do in the current call. A step is a
  statement: the condition of the caller, the early return when the hash exists, the store of the new transaction, the count. The transaction itself is built in
  the memory of the thread.
\<close>

record 'd pool_sys =
  pool_s :: "'d dbs res"
  skip_s :: "nat \<Rightarrow> bool"

definition stmt_enter :: "('d dbs \<Rightarrow> bool) \<Rightarrow> nat \<Rightarrow> 'd pool_sys \<Rightarrow> 'd pool_sys" where
  "stmt_enter cond t g = g\<lparr>skip_s := (skip_s g)(t := (case pool_s g of Inl e \<Rightarrow> True | Inr dbs \<Rightarrow> \<not> cond dbs))\<rparr>"

definition stmt_exists :: "'d env \<Rightarrow> nat \<Rightarrow> 'd pool_sys \<Rightarrow> 'd pool_sys" where
  "stmt_exists E t g =
     (if skip_s g t then g
      else case rbind (pool_s g) (\<lambda>dbs. data_mempool_exists dbs (hash_e E)) of
          Inl e \<Rightarrow> g\<lparr>pool_s := Inl e\<rparr>
        | Inr found \<Rightarrow> g\<lparr>skip_s := (skip_s g)(t := found)\<rparr>)"

definition new_tx :: "'d env \<Rightarrow> bytes \<Rightarrow> m_tx" where
  "new_tx E d =
     (let sz = tx_compute_size (ext_e E) d; tx_data = junk_e E (unat sz)
      in \<lparr>hash_t = Some (tx_compute_hash (ext_e E) tx_data), data_t = Some tx_data, size_t = sz, max_t = sz\<rparr>)"

definition stmt_store :: "'d env \<Rightarrow> bytes \<Rightarrow> nat \<Rightarrow> 'd pool_sys \<Rightarrow> 'd pool_sys" where
  "stmt_store E d t g =
     (if skip_s g t then g
      else g\<lparr>pool_s := rbind (pool_s g) (\<lambda>dbs.
        rbind (store (slots (mempool_d dbs)) (unat (count_m (mempool_d dbs))) (Some (new_tx E d))) (\<lambda>txs.
        Inr (dbs\<lparr>mempool_d := (mempool_d dbs)\<lparr>slots := txs\<rparr>\<rparr>)))\<rparr>)"

definition stmt_count :: "nat \<Rightarrow> 'd pool_sys \<Rightarrow> 'd pool_sys" where
  "stmt_count t g =
     (if skip_s g t then g
      else g\<lparr>pool_s := rbind (pool_s g) (\<lambda>dbs. Inr (dbs\<lparr>mempool_d := (mempool_d dbs)\<lparr>count_m := count_m (mempool_d dbs) + 1\<rparr>\<rparr>))\<rparr>)"

definition add_stmts :: "'d env \<Rightarrow> ('d dbs \<Rightarrow> bool) \<Rightarrow> bytes \<Rightarrow> nat \<Rightarrow> 'd pool_sys act list" where
  "add_stmts E cond d t = [Do (stmt_enter cond t), Do (stmt_exists E t), Do (stmt_store E d t), Do (stmt_count t)]"

text \<open>Without interruption they are \<open>data_mempool_add\<close>, if the condition holds.\<close>

lemma finish_add_stmts:
  "pool_s (finish (add_stmts E cond d t @ Release m # as) g) =
    rbind (pool_s g) (\<lambda>dbs. if cond dbs then data_mempool_add (junk_e E) (ext_e E) (hash_e E) dbs d else Inr dbs)"
proof (cases "pool_s g")
  case (Inr dbs)
  then show ?thesis
    by (cases "data_mempool_exists dbs (hash_e E)")
       (auto simp: add_stmts_def stmt_enter_def stmt_exists_def stmt_store_def stmt_count_def data_mempool_add_def new_tx_def Let_def
         rbind_def split: sum.splits)
qed (simp add: add_stmts_def stmt_enter_def stmt_exists_def stmt_store_def stmt_count_def)

subsection \<open>Received transactions\<close>

text \<open>The handler of a transaction, after it has built it from the message: what \<open>on_tx\<close> does to the databases.\<close>

definition receive_tx :: "'d net_env \<Rightarrow> bytes \<Rightarrow> 'd dbs \<Rightarrow> 'd dbs res" where
  "receive_tx N d dbs =
     (if count_m (mempool_d dbs) < MAX_MEMPOOL_SIZE N
      then data_mempool_add (junk_e (env_n N)) (ext_e (env_n N)) (hash_e (env_n N)) dbs d else Inr dbs)"

lemma on_tx_receives:
  "on_tx N msg c = Inr c' \<Longrightarrow> c' = c\<lparr>dbs_c := dbs_c c'\<rparr> \<and> (\<exists>d. receive_tx N d (dbs_c c) = Inr (dbs_c c'))"
  by (auto simp: on_tx_def receive_tx_def rbind_eq_Inr case_option_eq_Inr split: if_split_asm)

definition tx_stmts :: "'d net_env \<Rightarrow> nat \<Rightarrow> bytes \<Rightarrow> 'd pool_sys act list" where
  "tx_stmts N t d =
     [Acquire Mempool_mutex] @ add_stmts (env_n N) (\<lambda>dbs. count_m (mempool_d dbs) < MAX_MEMPOOL_SIZE N) d t @ [Release Mempool_mutex]"

text \<open>Threads, each with the transactions it receives.\<close>

definition tx_threads :: "'d net_env \<Rightarrow> 'd dbs \<Rightarrow> bytes list list \<Rightarrow> 'd pool_sys sys" where
  "tx_threads N dbs dss =
     \<lparr>threads = map (\<lambda>t. concat (map (tx_stmts N t) (dss ! t))) [0..<length dss], owners = (\<lambda>m. None),
      shared = \<lparr>pool_s = Inr dbs, skip_s = (\<lambda>t. False)\<rparr>\<rparr>"

definition tx_effect :: "'d net_env \<Rightarrow> nat \<times> bytes \<Rightarrow> 'd pool_sys \<Rightarrow> 'd pool_sys" where
  "tx_effect N td = finish (tl (tx_stmts N (fst td) (snd td)))"

lemma finish_Do: "finish (map Do fs @ Release m # as) = finish (map Do fs @ [Release m])"
  by (rule ext) (induction fs, auto)

lemma tx_stmts_Do:
  obtains fs where "tx_stmts N t d = Acquire Mempool_mutex # map Do fs @ [Release Mempool_mutex]"
  using that [of "[stmt_enter (\<lambda>dbs. count_m (mempool_d dbs) < MAX_MEMPOOL_SIZE N) t, stmt_exists (env_n N) t,
      stmt_store (env_n N) d t, stmt_count t]"] by (simp add: tx_stmts_def add_stmts_def)

lemma sections_map_Do: "sections (map Do fs @ as) = sections as"
  by (induction fs) auto

lemma sections_tx_stmts: "sections (concat (map (tx_stmts N t) ds)) = map (tx_effect N) (map (Pair t) ds)"
proof (induction ds)
  case (Cons d ds)
  obtain fs where "tx_stmts N t d = Acquire Mempool_mutex # map Do fs @ [Release Mempool_mutex]" by (rule tx_stmts_Do)
  with Cons show ?case
    by (simp add: sections_map_Do tx_effect_def finish_Do [of fs Mempool_mutex "concat (map (tx_stmts N t) ds)"])
qed simp

lemma disciplined_tx_stmts: "disciplined {Mempool_mutex} None (map lock_op_of (tx_stmts N t d))"
  by (simp add: tx_stmts_def add_stmts_def)

lemma tx_threads_init: "lock_init {Mempool_mutex} (locks_of (tx_threads N dbs dss))"
  by (auto simp: lock_init_def locks_of_def tx_threads_def map_concat disciplined_tx_stmts intro!: disciplined_concat)

lemma tx_effect_pool: "pool_s (tx_effect N td g) = rbind (pool_s g) (receive_tx N (snd td))"
  using finish_add_stmts [of "env_n N" "\<lambda>dbs. count_m (mempool_d dbs) < MAX_MEMPOOL_SIZE N" "snd td" "fst td" Mempool_mutex "[]" g]
  by (simp add: tx_effect_def tx_stmts_def receive_tx_def [abs_def])

lemma tx_effects_pool:
  "pool_s (fold (\<lambda>f. f) (map (tx_effect N) tds) g) = foldl (\<lambda>r d. rbind r (receive_tx N d)) (pool_s g) (map snd tds)"
  by (induction tds arbitrary: g) (simp_all add: tx_effect_pool)

lemma consumes_mapI: "consumes xss ys zss \<Longrightarrow> consumes (map (map f) xss) (map f ys) (map (map f) zss)"
proof (induction rule: consumes.induct)
  case (one xss ys zss t z zs)
  then show ?case using consumes.one [of "map (map f) xss" "map f ys" "map (map f) zss" t "f z" "map f zs"] by (simp add: map_update)
qed (simp add: consumes.none)

lemma consumes_length: "consumes xss ys zss \<Longrightarrow> length zss = length xss"
  by (induction rule: consumes.induct) auto

lemma sections_tx_threads:
  "map sections (threads (tx_threads N dbs dss)) = map (map (tx_effect N)) (map (\<lambda>t. map (Pair t) (dss ! t)) [0..<length dss])"
  by (simp add: tx_threads_def sections_tx_stmts comp_def)

lemma completed_done:
  assumes "lock_inv G (locks_of s)" "\<forall>p \<in> set (threads s). p = []"
  shows "completed s = shared s"
proof (cases "owners s Mempool_mutex")
  case (Some t)
  then have "t < length (threads s)" using assms(1) by (simp add: lock_inv_def locks_of_def)
  then have "threads s ! t = []" using assms(2) by simp
  with Some show ?thesis by (simp add: completed_def)
qed (simp add: completed_def)

lemma serial_order:
  assumes r: "reach (\<lambda>s. s = tx_threads N dbs dss) sys_step s0 s" and fin: "\<forall>p \<in> set (threads s). p = []"
  shows "\<exists>ds. consumes dss ds (map (\<lambda>_. []) dss) \<and> pool_s (shared s) = foldl (\<lambda>r d. rbind r (receive_tx N d)) (Inr dbs) ds"
proof -
  let ?lab = "map (\<lambda>t. map (Pair t) (dss ! t)) [0..<length dss]"
  obtain fs where inv: "lock_inv {Mempool_mutex} (locks_of s)"
    and fs: "consumes (map (map (tx_effect N)) ?lab) fs (map sections (threads s))"
      "completed s = fold (\<lambda>f. f) fs (shared (tx_threads N dbs dss))"
    using sys_run_serial [OF r tx_threads_init] unfolding sections_tx_threads by blast
  obtain tds zss where z: "consumes ?lab tds zss" "fs = map (tx_effect N) tds" "map sections (threads s) = map (map (tx_effect N)) zss"
    using consumes_map [OF fs(1)] by blast
  have "zs = []" if "zs \<in> set zss" for zs
  proof -
    have "map (tx_effect N) zs \<in> set (map sections (threads s))" using that z(3) by simp
    with fin show ?thesis by auto
  qed
  moreover have "length zss = length dss" using consumes_length [OF z(1)] by simp
  ultimately have "map (map snd) zss = map (\<lambda>_. []) dss" by (auto intro: nth_equalityI)
  moreover have "map (map snd) ?lab = dss" by (simp add: comp_def map_nth)
  ultimately have "consumes dss (map snd tds) (map (\<lambda>_. []) dss)" using consumes_mapI [OF z(1), of snd] by simp
  moreover have "pool_s (shared s) = foldl (\<lambda>r d. rbind r (receive_tx N d)) (Inr dbs) (map snd tds)"
    using fs(2) completed_done [OF inv fin] z(2) tx_effects_pool [of N tds "shared (tx_threads N dbs dss)"] by (simp add: tx_threads_def)
  ultimately show ?thesis by blast
qed

text \<open>
  C6. Received transactions are added one after the other, whatever the interleaving. Any number of threads, each with any transactions received, run the statements of
  their handlers interleaved in any way on the shared pool. When all are done the databases are those of the uninterrupted handlers, run in some
  order in which each thread keeps its own; in particular a fault occurs only if it does there.
\<close>

theorem received_txs_serial:
  assumes "reach (\<lambda>s. s = tx_threads N dbs dss) sys_step s0 s" "\<forall>p \<in> set (threads s). p = []"
  shows "\<exists>ds. consumes dss ds (map (\<lambda>_. []) dss) \<and> pool_s (shared s) = foldl (\<lambda>r d. rbind r (receive_tx N d)) (Inr dbs) ds"
  by (rule serial_order [OF assms])

subsection \<open>The invariant of the pool\<close>

definition pool_inv :: "'d net_env \<Rightarrow> 'd dbs \<Rightarrow> bool" where
  "pool_inv N dbs \<longleftrightarrow> pool_wf (mempool_d dbs) \<and> unat (MAX_MEMPOOL_SIZE N) \<le> length (slots (mempool_d dbs))
     \<and> count_m (mempool_d dbs) \<le> MAX_MEMPOOL_SIZE N"

lemma receive_tx_inv:
  assumes inv: "pool_inv N dbs" and h: "length (hash_e (env_n N)) = 32" "\<forall>d. length (tx_compute_hash (ext_e (env_n N)) d) = 32"
  shows "\<exists>dbs'. receive_tx N d dbs = Inr dbs' \<and> pool_inv N dbs'"
proof (cases "count_m (mempool_d dbs) < MAX_MEMPOOL_SIZE N")
  case True
  then have lt: "unat (count_m (mempool_d dbs)) < unat (MAX_MEMPOOL_SIZE N)" by (simp add: word_less_nat_alt)
  moreover have "unat (MAX_MEMPOOL_SIZE N) < 2 ^ 32" using unsigned_less [of "MAX_MEMPOOL_SIZE N"] by simp
  ultimately have small: "unat (count_m (mempool_d dbs)) < 2 ^ 32 - 1" by simp
  from lt inv have "unat (count_m (mempool_d dbs)) < length (slots (mempool_d dbs))" by (simp add: pool_inv_def)
  with data_mempool_add_cases [OF _ h small, of "junk_e (env_n N)" d] inv True lt show ?thesis
    by (auto simp: receive_tx_def pool_inv_def word_le_nat_alt split: if_split_asm)
next
  case False
  with inv show ?thesis by (simp add: receive_tx_def)
qed

lemma receive_txs_inv:
  assumes h: "length (hash_e (env_n N)) = 32" "\<forall>d. length (tx_compute_hash (ext_e (env_n N)) d) = 32"
  shows "pool_inv N dbs \<Longrightarrow> \<exists>dbs'. foldl (\<lambda>r d. rbind r (receive_tx N d)) (Inr dbs) ds = Inr dbs' \<and> pool_inv N dbs'"
proof (induction ds arbitrary: dbs)
  case (Cons d ds)
  then show ?case using receive_tx_inv [OF Cons.prems h, of d] by auto
qed simp


text \<open>Running the threads by a schedule.\<close>

fun run_schedule :: "nat list \<Rightarrow> 'g sys \<Rightarrow> 'g sys option" where
  "run_schedule [] s = Some s"
| "run_schedule (t # ts) s = Option.bind (act_step t s) (run_schedule ts)"

lemma run_schedule_reach_from:
  "reach init sys_step s0 s \<Longrightarrow> run_schedule ts s = Some s' \<Longrightarrow> reach init sys_step s0 s'"
proof (induction ts arbitrary: s)
  case (Cons t ts)
  then obtain u where "act_step t s = Some u" "run_schedule ts u = Some s'" by (auto simp: bind_eq_Some_conv)
  with Cons show ?case using reach.further [OF Cons.prems(1)] sys_step.thread by blast
qed simp

lemma run_schedule_reach: "run_schedule ts s0 = Some s \<Longrightarrow> reach (\<lambda>s. s = s0) sys_step s0 s"
  by (rule run_schedule_reach_from) (rule reach.start, rule refl)

lemma act_step_simps:
  "t < length ths \<Longrightarrow> ths ! t = Do f # as
    \<Longrightarrow> act_step t \<lparr>threads = ths, owners = ow, shared = g\<rparr> = Some \<lparr>threads = ths[t := as], owners = ow, shared = f g\<rparr>"
  "t < length ths \<Longrightarrow> ths ! t = Release m # as
    \<Longrightarrow> act_step t \<lparr>threads = ths, owners = ow, shared = g\<rparr> = Some \<lparr>threads = ths[t := as], owners = ow(m := None), shared = g\<rparr>"
  "t < length ths \<Longrightarrow> ths ! t = Acquire m # as \<Longrightarrow> ow m = None
    \<Longrightarrow> act_step t \<lparr>threads = ths, owners = ow, shared = g\<rparr> = Some \<lparr>threads = ths[t := as], owners = ow(m := Some t), shared = g\<rparr>"
  by (simp_all add: act_step_def)

text \<open>Two threads, a transaction each; the second thread is faster.\<close>

lemma two_txs_run:
  obtains s where "reach (\<lambda>s. s = tx_threads N dbs [[d], [e]]) sys_step (tx_threads N dbs [[d], [e]]) s" "\<forall>p \<in> set (threads s). p = []"
proof -
  obtain s where "run_schedule [1, 1, 1, 1, 1, 1, 0, 0, 0, 0, 0, 0] (tx_threads N dbs [[d], [e]]) = Some s" "threads s = [[], []]"
    by (simp add: tx_threads_def tx_stmts_def add_stmts_def act_step_simps)
  from run_schedule_reach [OF this(1)] this(2) show ?thesis by (intro that [of s]) simp_all
qed

theorem received_txs_serial_witness:
  "\<exists>s ds. reach (\<lambda>s. s = tx_threads some_net some_dbs [[[8]], [[9]]]) sys_step (tx_threads some_net some_dbs [[[8]], [[9]]]) s
    \<and> consumes [[[8]], [[9]]] ds [[], []] \<and> pool_s (shared s) = foldl (\<lambda>r d. rbind r (receive_tx some_net d)) (Inr some_dbs) ds"
proof -
  obtain s where r: "reach (\<lambda>s. s = tx_threads some_net some_dbs [[[8]], [[9]]]) sys_step (tx_threads some_net some_dbs [[[8]], [[9]]]) s"
    "\<forall>p \<in> set (threads s). p = []" by (rule two_txs_run)
  from received_txs_serial [OF this] r(1) show ?thesis by auto
qed


subsection \<open>A switch of branches\<close>

text \<open>
  \<^verbatim>\<open>data_blocks_revert\<close> moves the transactions of the old blocks to the pool (\<open>old_txs_loop\<close>), in the handler of a block, under \<^verbatim>\<open>peers_mutex\<close>.
\<close>

definition switch_stmts :: "'d env \<Rightarrow> nat \<Rightarrow> bytes \<Rightarrow> 'd pool_sys act list" where
  "switch_stmts E t d = [Acquire Peers_mutex] @ add_stmts E (\<lambda>dbs. True) d t @ [Release Peers_mutex]"

definition switch_and_tx :: "'d net_env \<Rightarrow> 'd dbs \<Rightarrow> bytes \<Rightarrow> bytes \<Rightarrow> 'd pool_sys sys" where
  "switch_and_tx N dbs d e =
     \<lparr>threads = [switch_stmts (env_n N) 0 d, tx_stmts N 1 e], owners = (\<lambda>m. None), shared = \<lparr>pool_s = Inr dbs, skip_s = (\<lambda>t. False)\<rparr>\<rparr>"

definition overtaking :: "nat list" where
  "overtaking = [0, 0, 0, 1, 1, 1, 0, 1, 0, 1, 0, 1]"

lemma overtaking_run:
  "run_schedule overtaking \<lparr>threads = [switch_stmts E 0 d, tx_stmts N 1 e], owners = (\<lambda>m. None), shared = g\<rparr> =
    Some \<lparr>threads = [[], []], owners = (\<lambda>m. None)(Peers_mutex := None, Mempool_mutex := None),
      shared = stmt_count 1 (stmt_count 0 (stmt_store (env_n N) e 1 (stmt_store E d 0 (stmt_exists (env_n N) 1
        (stmt_enter (\<lambda>dbs. count_m (mempool_d dbs) < MAX_MEMPOOL_SIZE N) 1 (stmt_exists E 0 (stmt_enter (\<lambda>dbs. True) 0 g)))))))\<rparr>"
  by (simp add: overtaking_def switch_stmts_def tx_stmts_def add_stmts_def act_step_simps fun_upd_twist)

text \<open>
  C14. A switch of branches can destroy the pool. Whenever the pool is well-formed, does not have the hash that is looked for and has room for two more, there is a run of a handler that switches
  branches and of one that receives a transaction which ends normally, but with only one of the two transactions in the pool: both were stored in the
  same slot, and the count was increased twice. The last slot below the new count is still free, so the pool is not
  well-formed any more.
\<close>

theorem switch_loses_tx:
  assumes "pool_wf (mempool_d dbs)" "length (hash_e (env_n N)) = SIZE_SHA256" "hash_e (env_n N) \<notin> pool_hashes (mempool_d dbs)"
    and "n = unat (count_m (mempool_d dbs))" "n + 1 < length (slots (mempool_d dbs))" "count_m (mempool_d dbs) < MAX_MEMPOOL_SIZE N"
    and "slots (mempool_d dbs) ! (n + 1) = None" "n + 2 < 2 ^ 32"
  shows "\<exists>s dbs'. reach (\<lambda>s. s = switch_and_tx N dbs d e) sys_step (switch_and_tx N dbs d e) s \<and> (\<forall>p \<in> set (threads s). p = [])
    \<and> pool_s (shared s) = Inr dbs' \<and> unat (count_m (mempool_d dbs')) = n + 2
    \<and> slots (mempool_d dbs') = (slots (mempool_d dbs))[n := Some (new_tx (env_n N) e)] \<and> \<not> pool_wf (mempool_d dbs')"
proof -
  let ?g = "\<lparr>pool_s = Inr dbs, skip_s = (\<lambda>t. False)\<rparr>" and ?m = "mempool_d dbs"
  define dbs' where "dbs' = dbs\<lparr>mempool_d := \<lparr>slots = (slots ?m)[n := Some (new_tx (env_n N) e)], count_m = count_m ?m + 1 + 1\<rparr>\<rparr>"
  obtain s where s: "run_schedule overtaking (switch_and_tx N dbs d e) = Some s" "threads s = [[], []]"
    "shared s = stmt_count 1 (stmt_count 0 (stmt_store (env_n N) e 1 (stmt_store (env_n N) d 0 (stmt_exists (env_n N) 1
      (stmt_enter (\<lambda>dbs. count_m (mempool_d dbs) < MAX_MEMPOOL_SIZE N) 1 (stmt_exists (env_n N) 0 (stmt_enter (\<lambda>dbs. True) 0 ?g)))))))"
    using overtaking_run [of "env_n N" d N e ?g] by (simp add: switch_and_tx_def)
  have ex: "data_mempool_exists dbs (hash_e (env_n N)) = Inr False" using data_mempool_exists_ok [OF assms(1,2)] assms(3) by simp
  have "pool_s (shared s) = Inr dbs'"
    using ex assms(4-6) unfolding s(3)
    by (simp add: stmt_enter_def stmt_exists_def stmt_store_def stmt_count_def dbs'_def)
  moreover have c: "unat (count_m (mempool_d dbs')) = n + 2"
    using assms(4,8) by (simp add: dbs'_def unat_word_ariths)
  moreover have "\<not> pool_wf (mempool_d dbs')"
  proof
    assume "pool_wf (mempool_d dbs')"
    then have "list_all pool_entry (take (n + 2) ((slots ?m)[n := Some (new_tx (env_n N) e)]))" unfolding pool_wf_def c by (simp add: dbs'_def)
    then have "pool_entry ((slots ?m)[n := Some (new_tx (env_n N) e)] ! (n + 1))" using assms(5) by (auto simp: list_all_length)
    with assms(7) show False by (simp add: pool_entry_def)
  qed
  ultimately show ?thesis using run_schedule_reach [OF s(1)] s(2) by (auto simp: dbs'_def)
qed

text \<open>An empty pool of 500 slots.\<close>

theorem switch_loses_tx_witness:
  "\<exists>s dbs'. reach (\<lambda>s. s = switch_and_tx some_net some_dbs [8] [9]) sys_step (switch_and_tx some_net some_dbs [8] [9]) s
    \<and> pool_s (shared s) = Inr dbs' \<and> count_m (mempool_d dbs') = 2 \<and> slots (mempool_d dbs') ! 1 = None"
proof -
  have "MAX_MEMPOOL_SIZE some_net = 10" "length (hash_e (env_n some_net)) = 32" by (simp_all add: some_net_def some_env_def)
  with switch_loses_tx [of some_dbs some_net 0 "[8]" "[9]"] obtain s dbs' where
    "reach (\<lambda>s. s = switch_and_tx some_net some_dbs [8] [9]) sys_step (switch_and_tx some_net some_dbs [8] [9]) s"
    "pool_s (shared s) = Inr dbs'" "unat (count_m (mempool_d dbs')) = 2"
    "slots (mempool_d dbs') = (replicate 500 None)[0 := Some (new_tx (env_n some_net) [9])]"
    by (auto simp: some_dbs_pool some_values)
  moreover from this(3) have "count_m (mempool_d dbs') = 2" by (simp add: word_unat_eq_iff)
  ultimately show ?thesis by (intro exI [of _ s] exI [of _ dbs'] conjI) simp_all
qed

end
