(* ===== verification/Buffers.thy ===== *)
theory Buffers
  imports Network
begin

text \<open>
  The type of a connection: its response buffer, of \<^verbatim>\<open>MAX_MSG_SIZE\<close> bytes, is memory whose extent no handler changes, with everything
  a handler calls. The contract \<open>handler\<close> of theory \<open>Network\<close> is extended by this law and interpreted on the same handlers.
\<close>

subsection \<open>The contract\<close>

text \<open>Room for a message, and for a block that \<^verbatim>\<open>data_blocks_get\<close> puts behind its size.\<close>

definition roomy :: "'d conn \<Rightarrow> bool" where
  "roomy c \<longleftrightarrow> length (resp c) = MAX_MSG_SIZE"

text \<open>The library does not resize memory that is as long as \<^verbatim>\<open>ulen\<close> says.\<close>

definition keeps_lengths :: "'d net_env \<Rightarrow> bool" where
  "keeps_lengths N \<longleftrightarrow> (\<forall>db k dat. unat (ulen_d dat) \<le> length (data_d dat)
     \<longrightarrow> length (data_d (snd (b_get (bdb_e (env_n N)) db k dat))) = length (data_d dat))"

locale sized_handler = handler h for h :: "'d net_env \<Rightarrow> 'd conn \<Rightarrow> 'd conn res" +
  assumes sized: "keeps_lengths N \<Longrightarrow> roomy c \<Longrightarrow> h N c = Inr c' \<Longrightarrow> roomy c'"
begin

lemma sized_after:
  "keeps_lengths N \<Longrightarrow> roomy c \<Longrightarrow> length r = length (resp c) \<Longrightarrow> h N (c\<lparr>resp := r\<rparr>) = Inr c' \<Longrightarrow> roomy c'"
  "keeps_lengths N \<Longrightarrow> roomy c \<Longrightarrow> length r = length (resp c) \<Longrightarrow> h N (c\<lparr>dbs_c := d, resp := r\<rparr>) = Inr c' \<Longrightarrow> roomy c'"
  by (erule sized; simp add: roomy_def)+

end

lemma roomy_update [simp]:
  "roomy (c\<lparr>dbs_c := d\<rparr>) = roomy c" "roomy (c\<lparr>sent := ms\<rparr>) = roomy c" "roomy (c\<lparr>announced := as\<rparr>) = roomy c"
  by (simp_all add: roomy_def)

subsection \<open>Writes keep the extent of memory\<close>

lemma length_writes:
  "ustob v b off = Inr b' \<Longrightarrow> length b' = length b" "uitob u b off = Inr b' \<Longrightarrow> length b' = length b"
  "memcpy d doff src soff n = Inr d' \<Longrightarrow> length d' = length d" "memset d doff x n = Inr d' \<Longrightarrow> length d' = length d"
  "store d i x = Inr d' \<Longrightarrow> length d' = length d"
  by (auto simp: writes_Inr mem_simps)

lemma length_missing_loop: "missing_loop n i m ex list loff dest doff = Inr (m', dest') \<Longrightarrow> length dest' = length dest"
proof (induction n arbitrary: i m dest)
  case (Suc n)
  from Suc.prems show ?case by (auto simp: rbind_eq_Inr split: if_split_asm dest!: length_writes(3) Suc.IH)
qed simp

lemma length_mempool_list: "mempool_list_loop n i object txs dest doff = Inr dest' \<Longrightarrow> length dest' = length dest"
proof (induction n arbitrary: i dest)
  case (Suc n)
  from Suc.prems show ?case by (auto simp: rbind_eq_Inr split: option.splits dest!: length_writes(3) Suc.IH)
qed simp

lemma length_lists:
  "build_missing_blocks_list B dbs list loff count dest doff = Inr (m, dest') \<Longrightarrow> length dest' = length dest"
  "build_missing_tx_list B dbs list loff count dest doff = Inr (m, dest') \<Longrightarrow> length dest' = length dest"
  "build_mempool_list object dbs dest doff = Inr dest' \<Longrightarrow> length dest' = length dest"
  "build_block_list e junk jh B X dbs startblock req_blocks dest = Inr (m, dest') \<Longrightarrow> length dest' = length dest"
  by (auto simp: build_missing_blocks_list_def build_missing_tx_list_def build_mempool_list_def build_block_list_def
      Let_def rbind_eq_Inr split: prod.splits if_split_asm dest: length_missing_loop length_mempool_list)

lemma length_data_blocks_get:
  assumes "keeps_lengths N" "1048576 \<le> length dest"
  shows "length (snd (data_blocks_get (bdb_e (env_n N)) dbs hash dest)) = length dest"
  using assms by (simp add: data_blocks_get_def Let_def db_get_def split_beta) (simp add: keeps_lengths_def new_dbt_def)

lemma length_fetched_block:
  assumes "keeps_lengths N" "roomy c"
  shows "min (length (resp c)) 4 + length (snd (data_blocks_get (bdb_e (env_n N)) dbs hash (drop 4 (resp c)))) = length (resp c)"
  using assms by (simp add: length_data_blocks_get roomy_def)

lemma length_rejoined: "length ys = length xs - n \<Longrightarrow> min (length xs) n + length ys = length xs"
  by simp

subsection \<open>The handlers\<close>

interpretation resp_sized: sized_handler "\<lambda>N. send_resp N CTYPE len" for CTYPE len
  by unfold_locales (auto simp: send_resp_def rbind_eq_Inr)

interpretation list_sized: sized_handler "\<lambda>N. send_list N CTYPE dtype count" for CTYPE dtype count
  by unfold_locales
     (auto simp: send_list_def rbind_eq_Inr dest!: length_writes dest: resp_sized.sized_after)

interpretation block_sized: sized_handler "\<lambda>N. send_block N msg i" for msg i
  by unfold_locales
     (auto simp: send_block_def Let_def rbind_eq_Inr split_beta length_fetched_block split: if_split_asm
       dest!: length_writes(2) dest: resp_sized.sized_after)

interpretation tx_sized: sized_handler "\<lambda>N. send_tx N msg i" for msg i
  by unfold_locales
     (auto simp: send_tx_def rbind_eq_Inr case_option_eq_Inr split: if_split_asm
       dest!: length_writes(2,3) dest: resp_sized.sized_after)

lemma ids_loop_sized:
  assumes "\<And>i. sized_handler (\<lambda>N. body N i)" "keeps_lengths N"
  shows "roomy c \<Longrightarrow> ids_loop (body N) i mx c = Inr c' \<Longrightarrow> roomy c'"
proof (induction "body N" i mx c rule: ids_loop.induct)
  case (1 i mx c)
  show ?case
  proof (cases "i < mx")
    case True
    with 1(3) obtain d where "body N i c = Inr d" "ids_loop (body N) (i + SIZE_SHA256) mx d = Inr c'"
      by (auto simp: ids_loop.simps [of "body N" i] rbind_eq_Inr)
    with 1(1) [OF True] 1(2) sized_handler.sized [OF assms] show ?thesis by blast
  next
    case False
    with 1(2,3) show ?thesis by (simp add: ids_loop.simps)
  qed
qed

lemma send_peers_sized: "keeps_lengths N \<Longrightarrow> roomy c \<Longrightarrow> send_peers n i N c = Inr c' \<Longrightarrow> roomy c'"
proof (induction n arbitrary: i c)
  case (Suc n)
  then obtain r d where "length r = length (resp c)" "send_resp N CTYPE_PEER (4 + addr_len (peers c ! i)) (c\<lparr>resp := r\<rparr>) = Inr d"
    "send_peers n (i + 1) N d = Inr c'"
    by (auto simp: rbind_eq_Inr load_def split: if_split_asm dest!: length_writes)
  with Suc show ?case using resp_sized.sized_after(1) by blast
qed simp

interpretation blocks_sized: sized_handler "\<lambda>N. send_blocks N msg i mx" for msg i mx
  by unfold_locales (simp add: send_blocks_def ids_loop_sized [OF block_sized.sized_handler_axioms])

interpretation txs_sized: sized_handler "\<lambda>N. send_txs N msg i mx" for msg i mx
  by unfold_locales (simp add: send_txs_def ids_loop_sized [OF tx_sized.sized_handler_axioms])

interpretation peers_sized: sized_handler "send_peers n i" for n i
  by unfold_locales (rule send_peers_sized)

interpretation getblocks_sized: sized_handler "\<lambda>N. on_getblocks N msg" for msg
  by unfold_locales
     (auto simp: on_getblocks_def rbind_eq_Inr length_rejoined dest!: length_lists(4)
       elim!: list_sized.sized_after(1) [rotated 3])

interpretation mempool_sized: sized_handler on_mempool
  by unfold_locales (auto simp: on_mempool_def rbind_eq_Inr dest!: length_lists(3) dest: list_sized.sized_after)

interpretation inv_sized: sized_handler "\<lambda>N. on_inv N msg" for msg
  by unfold_locales
     (auto simp: on_inv_def rbind_eq_Inr split: if_split_asm dest!: length_lists(1,2) dest: list_sized.sized_after)

interpretation getdata_sized: sized_handler "\<lambda>N. on_getdata N msg" for msg
  by unfold_locales
     (auto simp: on_getdata_def rbind_eq_Inr Let_def split: if_split_asm
       dest: blocks_sized.sized txs_sized.sized peers_sized.sized)

interpretation place_sized: sized_handler "\<lambda>N. place_block N block height curr_height curr_hash" for block height curr_height curr_hash
  by unfold_locales
     (auto simp: place_block_def rbind_eq_Inr Let_def split: if_split_asm
       dest!: length_writes(3) dest: list_sized.sized_after)

lemma on_block_sized:
  assumes "keeps_lengths N" "roomy c" "on_block N msg c = Inr c'"
  shows "roomy c'"
proof -
  obtain d b h ch cc e ds out where "place_block N b h ch cc (c\<lparr>dbs_c := d\<rparr>) = Inr e"
    "c' = e\<lparr>dbs_c := ds, announced := announced e @ out\<rparr>"
    using assms(3) by (simp add: on_block_def rbind_eq_Inr Let_def split_beta) blast
  with place_sized.sized [OF assms(1)] assms(2) show ?thesis by (metis roomy_update(1,3))
qed

interpretation recv_block_sized: sized_handler "\<lambda>N. on_block N msg" for msg
  by unfold_locales (rule on_block_sized)

interpretation recv_tx_sized: sized_handler "\<lambda>N. on_tx N msg" for msg
  by unfold_locales (auto simp: on_tx_def rbind_eq_Inr split: if_split_asm option.splits)

interpretation reject_sized: sized_handler reject_version
  by unfold_locales
     (auto simp: reject_version_def rbind_eq_Inr dest!: length_writes(4,5) dest: resp_sized.sized_after)

lemmas handlers_sized = resp_sized.sized getblocks_sized.sized mempool_sized.sized inv_sized.sized
  getdata_sized.sized recv_block_sized.sized recv_tx_sized.sized

lemma dispatch_sized: "keeps_lengths N \<Longrightarrow> roomy c \<Longrightarrow> dispatch N ctype msg c = Inr c' \<Longrightarrow> roomy c'"
  by (auto simp: dispatch_def rbind_eq_Inr split: if_split_asm dest: handlers_sized)

lemma handle_message_sized: "keeps_lengths N \<Longrightarrow> roomy c \<Longrightarrow> handle_message N msg c = Inr (out, c') \<Longrightarrow> roomy c'"
  by (auto simp: handle_message_def rbind_eq_Inr split: if_split_asm dest: reject_sized.sized dispatch_sized)

lemma handle_loop_sized:
  assumes "keeps_lengths N"
  shows "roomy c \<Longrightarrow> handle_loop N rs msg c = Inr c' \<Longrightarrow> roomy c'"
proof (induction rs arbitrary: msg c)
  case (Cons r rs)
  show ?case
  proof (cases r)
    case (Some bs)
    with Cons.prems obtain msg1 out d where m: "handle_message N msg1 c = Inr (out, d)"
      and rest: "(case out of Break \<Rightarrow> Inr d | Continue \<Rightarrow> handle_loop N rs msg1 d) = Inr c'"
      by (auto simp: rbind_eq_Inr)
    from handle_message_sized [OF assms Cons.prems(1) m] rest Cons.IH show ?thesis by (cases out) auto
  qed (use Cons.prems in simp)
qed simp

subsection \<open>The buffer of a connection\<close>


text \<open>A ping, then a message of another version, answered with a rejection from a full buffer.\<close>

definition full_conn :: "(bytes \<times> bytes) list conn" where
  "full_conn = some_conn\<lparr>resp := replicate 2097152 0\<rparr>"

lemma some_net_keeps_lengths: "keeps_lengths some_net"
  by (auto simp: keeps_lengths_def some_net_def some_env_def alist_bdb_def alist_get_def Let_def length_patch split: option.split)

lemma send_resp_some_net:
  "unat len \<le> length (resp c) \<Longrightarrow> len < 0xFFFFFFFD \<Longrightarrow> \<exists>d. send_resp some_net CTYPE len c = Inr d \<and> resp d = resp c"
  using sendto_peer_ok [of "junk_e (env_n some_net)" len "resp c" "sendto some_net" CTYPE]
  by (simp add: send_resp_def) (simp add: some_net_def some_env_def)

lemma reject_version_full: "length (resp c) = 2097152 \<Longrightarrow> \<exists>d. reject_version some_net c = Inr d"
  using send_resp_some_net [of 5 "c\<lparr>resp := patch ((resp c)[0 := ERR_BAD_VERSION]) 1 (replicate 4 0)\<rparr>" CTYPE_REJECT]
  by (auto simp: reject_version_def mem_simps)


end
