(* ===== verification/Protocol.thy ===== *)
theory Protocol
  imports Network
begin

text \<open>
  The protocol of \<^verbatim>\<open>src/README.md\<close>, as an abstract specification of what goes over the wire, and what \<^verbatim>\<open>handle_connection\<close> makes of messages that conform to it. A
  message is a version (two bytes), a content type (one byte) and a body; integers are big-endian.
\<close>

subsection \<open>Messages\<close>

datatype message =
    Reject_msg uchar bytes
  | Getblocks_msg bytes uchar
  | Mempool_msg
  | Inv_msg uchar "bytes list"
  | Getdata_msg uchar "bytes list"
  | Block_msg bytes
  | Tx_msg bytes
  | Peer_msg ushort bytes
  | Alert_msg uchar uchar uint bytes bytes
  | Ping_msg
  | Pong_msg

fun msg_ctype :: "message \<Rightarrow> uchar" where
  "msg_ctype (Reject_msg e info) = 0"
| "msg_ctype (Getblocks_msg h n) = 1"
| "msg_ctype Mempool_msg = 2"
| "msg_ctype (Inv_msg dt ids) = 3"
| "msg_ctype (Getdata_msg dt ids) = 4"
| "msg_ctype (Block_msg b) = 5"
| "msg_ctype (Tx_msg b) = 6"
| "msg_ctype (Peer_msg port addr) = 7"
| "msg_ctype (Alert_msg ty cmd time sig m) = 8"
| "msg_ctype Ping_msg = 9"
| "msg_ctype Pong_msg = 10"

fun msg_body :: "message \<Rightarrow> bytes" where
  "msg_body (Reject_msg e info) = [e, word_of_nat (length info)] @ info"
| "msg_body (Getblocks_msg h n) = h @ [n]"
| "msg_body Mempool_msg = []"
| "msg_body (Inv_msg dt ids) = [dt, word_of_nat (length ids)] @ concat ids"
| "msg_body (Getdata_msg dt ids) = [dt, word_of_nat (length ids)] @ concat ids"
| "msg_body (Block_msg b) = enc32 (word_of_nat (length b)) @ b"
| "msg_body (Tx_msg b) = enc32 (word_of_nat (length b)) @ b"
| "msg_body (Peer_msg port addr) = enc16 port @ enc16 (word_of_nat (length addr)) @ addr"
| "msg_body (Alert_msg ty cmd time sig m) = [ty, cmd] @ enc32 time @ sig @ [word_of_nat (length m)] @ m"
| "msg_body Ping_msg = []"
| "msg_body Pong_msg = []"

definition encode :: "message \<Rightarrow> bytes" where
  "encode m = [0, 1, msg_ctype m] @ msg_body m"

fun well_formed :: "message \<Rightarrow> bool" where
  "well_formed (Reject_msg e info) \<longleftrightarrow> length info < 256"
| "well_formed (Getblocks_msg h n) \<longleftrightarrow> length h = 32"
| "well_formed (Inv_msg dt ids) \<longleftrightarrow> length ids < 256 \<and> (\<forall>h \<in> set ids. length h = 32)"
| "well_formed (Getdata_msg dt ids) \<longleftrightarrow> length ids < 256 \<and> (\<forall>h \<in> set ids. length h = 32)"
| "well_formed (Block_msg b) \<longleftrightarrow> length b < 2 ^ 32"
| "well_formed (Tx_msg b) \<longleftrightarrow> length b < 2 ^ 32"
| "well_formed (Peer_msg port addr) \<longleftrightarrow> length addr < 2 ^ 16"
| "well_formed (Alert_msg ty cmd time sig m) \<longleftrightarrow> length sig = 128 \<and> length m < 256"
| "well_formed m \<longleftrightarrow> True"

subsection \<open>Reading a message\<close>

text \<open>A parser of the protocol: a message and the bytes behind it.\<close>

primrec chunks :: "nat \<Rightarrow> bytes \<Rightarrow> bytes list" where
  "chunks 0 bs = []"
| "chunks (Suc n) bs = take 32 bs # chunks n (drop 32 bs)"

definition split_at :: "nat \<Rightarrow> bytes \<Rightarrow> (bytes \<Rightarrow> message) \<Rightarrow> (message \<times> bytes) option" where
  "split_at n bs k = (if n \<le> length bs then Some (k (take n bs), drop n bs) else None)"

fun decode_body :: "uchar \<Rightarrow> bytes \<Rightarrow> (message \<times> bytes) option" where
  "decode_body c bs =
     (if c = 0 then if 2 \<le> length bs then split_at (unat (bs ! 1)) (drop 2 bs) (Reject_msg (bs ! 0)) else None
      else if c = 1 then if 33 \<le> length bs then Some (Getblocks_msg (take 32 bs) (bs ! 32), drop 33 bs) else None
      else if c = 2 then Some (Mempool_msg, bs)
      else if c = 3 then
        if 2 \<le> length bs then split_at (32 * unat (bs ! 1)) (drop 2 bs) (\<lambda>x. Inv_msg (bs ! 0) (chunks (unat (bs ! 1)) x)) else None
      else if c = 4 then
        if 2 \<le> length bs then split_at (32 * unat (bs ! 1)) (drop 2 bs) (\<lambda>x. Getdata_msg (bs ! 0) (chunks (unat (bs ! 1)) x)) else None
      else if c = 5 then if 4 \<le> length bs then split_at (unat (dec32 bs)) (drop 4 bs) Block_msg else None
      else if c = 6 then if 4 \<le> length bs then split_at (unat (dec32 bs)) (drop 4 bs) Tx_msg else None
      else if c = 7 then
        if 4 \<le> length bs then split_at (unat (dec16 (drop 2 bs))) (drop 4 bs) (Peer_msg (dec16 bs)) else None
      else if c = 8 then
        if 135 \<le> length bs
        then split_at (unat (bs ! 134)) (drop 135 bs) (Alert_msg (bs ! 0) (bs ! 1) (dec32 (drop 2 bs)) (take 128 (drop 6 bs)))
        else None
      else if c = 9 then Some (Ping_msg, bs)
      else if c = 10 then Some (Pong_msg, bs)
      else None)"

definition decode :: "bytes \<Rightarrow> (message \<times> bytes) option" where
  "decode bs = (if 3 \<le> length bs \<and> bs ! 0 = 0 \<and> bs ! 1 = 1 then decode_body (bs ! 2) (drop 3 bs) else None)"

lemma chunks_concat: "\<forall>h \<in> set ids. length h = 32 \<Longrightarrow> chunks (length ids) (concat ids @ rest) = ids"
  by (induction ids) auto

lemma length_ids: "\<forall>h \<in> set ids. length h = 32 \<Longrightarrow> length (concat ids) = 32 * length ids"
  by (induction ids) auto

lemma dec_prefix: "dec32 (enc32 a @ xs) = a" "dec16 (enc16 b @ xs) = b"
  by (simp_all add: dec32_def enc32_def dec16_def enc16_def be32_bytes be16_bytes)

lemma unat_of_length:
  "n < 256 \<Longrightarrow> unat (word_of_nat n :: uchar) = n" "n < 65536 \<Longrightarrow> unat (word_of_nat n :: ushort) = n"
  "n < 4294967296 \<Longrightarrow> unat (word_of_nat n :: uint) = n"
  by (simp_all add: unat_of_nat)

text \<open>The protocol is unambiguous: every message can be read off the beginning of a stream of bytes.\<close>

lemma decode_encode: "well_formed m \<Longrightarrow> decode (encode m @ rest) = Some (m, rest)"
  by (cases m) (auto simp: decode_def encode_def split_at_def unat_of_length dec_prefix length_ids nth_append
      chunks_concat [of _ "[]", simplified])

subsection \<open>Positions\<close>

text \<open>
  The positions of \<^verbatim>\<open>shared.h\<close> are those of the fields in the body of a message. (The signature of an alert has 128 bytes in the protocol; the position of the length
  of its text, 38, leaves 32.)
\<close>

lemma positions_in_body:
  "msg_body (Inv_msg dt ids) ! CTYPE_INV_POS_DATATYPE = dt" "msg_body (Getdata_msg dt ids) ! CTYPE_GETDATA_POS_DATATYPE = dt"
  "msg_body (Inv_msg dt ids) ! CTYPE_INV_POS_IDS_COUNT = word_of_nat (length ids)"
  "drop CTYPE_INV_POS_IDS (msg_body (Inv_msg dt ids)) = concat ids"
  "drop CTYPE_BLOCK_POS_BLOCK (msg_body (Block_msg b)) = b" "drop CTYPE_TX_POS_TX (msg_body (Tx_msg b)) = b"
  "drop CTYPE_PEER_POS_ADDR (msg_body (Peer_msg port addr)) = addr"
  "length h = 32 \<Longrightarrow> msg_body (Getblocks_msg h n) ! CTYPE_GETBLOCKS_POS_BLOCK_COUNT = n"
  "length sig = 128 \<Longrightarrow> msg_body (Alert_msg ty cmd time sig m) ! (CTYPE_ALERT_POS_MSG_LEN + 96) = word_of_nat (length m)"
  by (simp_all add: enc32_def enc16_def nth_append)

text \<open>But \<^verbatim>\<open>handle_connection\<close> applies them to the message with its three bytes in front.\<close>

lemma handle_conformant:
  "handle_message N (encode m @ rest) c = rbind (dispatch N (msg_ctype m) (encode m @ rest) c) (\<lambda>c. Inr (Continue, c))"
  by (subst handle_message_eq) (simp_all add: encode_def)

subsection \<open>Inventories and requests\<close>

text \<open>The first two bytes of a list are taken from the version: one block, whose hash begins with the content type.\<close>

lemma list_head:
  assumes "m = Inv_msg dt ids \<or> m = Getdata_msg dt ids" "well_formed m" "ids \<noteq> []" "msg = encode m @ rest"
  shows "load msg 0 = Inr DTYPE_BLOCK" "load msg 1 = Inr 1" "34 \<le> length msg"
    "segment msg 2 SIZE_SHA256 = [msg_ctype m, dt, word_of_nat (length ids)] @ take 29 (concat ids)"
proof -
  obtain h hs where ids: "ids = h # hs" using assms(3) by (cases ids) auto
  then have "29 \<le> length (concat ids)" using assms(1,2) by auto
  then show "load msg 0 = Inr DTYPE_BLOCK" "load msg 1 = Inr 1" "34 \<le> length msg"
    "segment msg 2 SIZE_SHA256 = [msg_ctype m, dt, word_of_nat (length ids)] @ take 29 (concat ids)"
    using assms(1,4) by (auto simp: encode_def segment_def load_def)
qed

lemma send_list_ok:
  assumes "\<forall>n. length (junk_e (env_n N) n) = n" "\<forall>raw. 0 \<le> sendto N raw" "2 + 32 * unat count \<le> length (resp c)"
  shows "\<exists>r. send_list N CTYPE dt count c =
    Inr (c\<lparr>resp := r, sent := sent c @ [[0, dt, count] @ segment (resp c) 2 (32 * unat count)]\<rparr>)"
proof -
  let ?r = "(resp c)[0 := dt, 1 := count]" and ?len = "2 + ucast count * word_of_nat SIZE_SHA256 :: uint"
  have "unat count < 256" using unsigned_less [of count] by simp
  then have len: "unat ?len = 2 + 32 * unat count" by (simp add: unat_word_ariths unsigned_ucast_eq take_bit_eq_mod)
  have "take (2 + 32 * unat count) ?r = [dt, count] @ segment (resp c) 2 (32 * unat count)"
    using assms(3) by (cases "resp c"; cases "tl (resp c)") (auto simp: segment_def)
  moreover have "?len < 0xFFFFFFFD" using len \<open>unat count < 256\<close> by (simp add: word_less_nat_alt)
  ultimately have "sendto_peer (junk_e (env_n N)) (sendto N) CTYPE ?r ?len = Inr (0 # [dt, count] @ segment (resp c) 2 (32 * unat count))"
    using sendto_peer_ok [OF assms(1), of ?len ?r] assms(2,3) len by (simp add: not_less)
  moreover have "store (resp c) 0 dt = Inr ((resp c)[0 := dt])" "store ((resp c)[0 := dt]) 1 count = Inr ?r"
    using assms(3) by (auto simp: store_def)
  ultimately show ?thesis unfolding send_list_def send_resp_def by (intro exI [of _ ?r]) simp
qed

text \<open>
  C7. No inventory that conforms to the protocol is understood. Whatever it announces, blocks, transactions or peers, and however many, the answer is the same as for the
  inventory of a single block whose hash is made of the content type, the data type, the number of hashes and the first 29 bytes of the hashes:
  the data type and the number are read from the version. The node asks for that hash, or for nothing if it has such a block.
\<close>

theorem conformant_inventory_misread:
  assumes "well_formed (Inv_msg dt ids)" "ids \<noteq> []" "msg = encode (Inv_msg dt ids) @ rest"
    and "\<forall>n. length (junk_e (env_n N) n) = n" "\<forall>raw. 0 \<le> sendto N raw" "2 + SIZE_SHA256 \<le> length (resp c)"
  shows "\<exists>r. handle_message N msg c = Inr (Continue, c\<lparr>resp := r, sent := sent c @
    [if data_blocks_exists (bdb_e (env_n N)) (dbs_c c) (drop 2 msg) \<noteq> 0 then [0, DTYPE_BLOCK, 0]
     else [0, DTYPE_BLOCK, 1] @ [CTYPE_INV, dt, word_of_nat (length ids)] @ take 29 (concat ids)]\<rparr>)"
proof -
  let ?ex = "data_blocks_exists (bdb_e (env_n N)) (dbs_c c)" and ?h = "[3, dt, word_of_nat (length ids)] @ take 29 (concat ids)"
  note l = list_head [of "Inv_msg dt ids" dt ids, OF disjI1 [OF refl] assms(1-3)]
  have b: "build_missing_blocks_list (bdb_e (env_n N)) (dbs_c c) msg 2 1 (resp c) 2 =
      Inr (if ?ex (drop 2 msg) = 0 then (1, patch (resp c) 2 ?h) else (0, resp c))"
    using l(3,4) assms(6) by (simp add: build_missing_blocks_list_def mem_simps)
  have h: "length ?h = 32" using l(3,4) length_segment [of 2 32 msg] by simp
  have "handle_message N msg c = rbind (on_inv N msg c) (\<lambda>c. Inr (Continue, c))"
    unfolding assms(3) handle_conformant by (simp add: dispatch_def)
  also have "on_inv N msg c =
      (if ?ex (drop 2 msg) = 0 then send_list N CTYPE_GETDATA DTYPE_BLOCK 1 (c\<lparr>resp := patch (resp c) 2 ?h\<rparr>)
       else send_list N CTYPE_GETDATA DTYPE_BLOCK 0 (c\<lparr>resp := resp c\<rparr>))"
    unfolding on_inv_def l(1,2) by (simp add: b)
  finally have run: "handle_message N msg c = rbind \<dots> (\<lambda>c. Inr (Continue, c))" .
  show ?thesis
  proof (cases "?ex (drop 2 msg) = 0")
    case True
    have "segment (patch (resp c) 2 ?h) 2 32 = ?h" using h assms(6) by (intro segment_patch_same) simp_all
    with True run send_list_ok [OF assms(4,5), of 1 "c\<lparr>resp := patch (resp c) 2 ?h\<rparr>" CTYPE_GETDATA DTYPE_BLOCK] h assms(6)
    show ?thesis by (auto simp: mem_simps)
  next
    case False
    with run send_list_ok [OF assms(4,5), of 0 "c\<lparr>resp := resp c\<rparr>" CTYPE_GETDATA DTYPE_BLOCK] assms(6)
    show ?thesis by (auto simp: segment_def)
  qed
qed

lemma some_net_sends: "\<forall>n. length (junk_e (env_n some_net) n) = n" "\<forall>raw. 0 \<le> sendto some_net raw"
  by (simp_all add: some_net_def some_env_def)

lemma nothing_stored: "data_blocks_exists (bdb_e (env_n some_net)) (dbs_c some_conn) h = 0"
  by (simp add: some_net_def some_env_def some_conn_def some_dbs_def alist_bdb_def data_blocks_exists_def db_exists_def)

text \<open>The announcement of a transaction.\<close>

theorem conformant_inventory_misread_witness:
  "\<exists>r. handle_message some_net (encode (Inv_msg DTYPE_TX [replicate 32 4])) some_conn =
    Inr (Continue, some_conn\<lparr>resp := r, sent := [[0, 0, 1, 3, 1, 1] @ replicate 29 4]\<rparr>)"
proof -
  have "2 + SIZE_SHA256 \<le> length (resp some_conn)" "sent some_conn = []" by (simp_all add: some_conn_def)
  with conformant_inventory_misread [of DTYPE_TX "[replicate 32 4]" _ "[]" some_net some_conn, OF _ _ refl some_net_sends]
  show ?thesis by (simp add: nothing_stored)
qed

text \<open>
  C17. No request that conforms to the protocol is answered with what it asks for. Requests for transactions and for peers, and for any number of blocks, all count
  as the request for one block with a hash that begins with the content type; at most one message is sent, none if there is no block of that hash, and the
  databases stay.
\<close>

theorem conformant_request_misread:
  assumes "well_formed (Getdata_msg dt ids)" "ids \<noteq> []" "msg = encode (Getdata_msg dt ids) @ rest"
    and "handle_message N msg c = Inr (out, c')"
  shows "out = Continue \<and> dbs_c c' = dbs_c c \<and> length (sent c') \<le> length (sent c) + 1
    \<and> segment msg 2 SIZE_SHA256 = [CTYPE_GETDATA, dt, word_of_nat (length ids)] @ take 29 (concat ids)
    \<and> (data_blocks_exists (bdb_e (env_n N)) (dbs_c c) (drop 2 msg) = 0 \<longrightarrow> c' = c)"
proof -
  note l = list_head [of "Getdata_msg dt ids" dt ids, OF disjI2 [OF refl] assms(1-3)]
  have "ids_loop (send_block N msg) 34 32 = Inr" by (rule ext) (simp add: ids_loop.simps)
  then have "on_getdata N msg c = rbind (send_block N msg 2 c) Inr"
    unfolding on_getdata_def l(1,2) by (simp add: send_blocks_def ids_loop.simps [of _ 2])
  then have "handle_message N msg c = rbind (send_block N msg 2 c) (\<lambda>c. Inr (Continue, c))"
    unfolding assms(3) handle_conformant by (cases "send_block N (encode (Getdata_msg dt ids) @ rest) 2 c") (simp_all add: dispatch_def)
  with assms(4) have "out = Continue" "send_block N msg 2 c = Inr c'" by (auto simp: rbind_eq_Inr)
  moreover from this(2) have "c' = c" if "data_blocks_exists (bdb_e (env_n N)) (dbs_c c) (drop 2 msg) = 0"
    using that by (simp add: send_block_def)
  ultimately show ?thesis using send_block_count [OF refl, of N msg 2 c c'] l(4) by simp
qed

text \<open>A request for a peer's peers.\<close>

theorem conformant_request_misread_witness:
  "handle_message some_net (encode (Getdata_msg DTYPE_NODE [replicate 32 4])) some_conn = Inr (Continue, some_conn)"
proof -
  let ?msg = "encode (Getdata_msg DTYPE_NODE [replicate 32 4]) @ []"
  have "\<exists>out c. handle_message some_net ?msg some_conn = Inr (out, c)"
    unfolding handle_conformant
    by (simp add: dispatch_def on_getdata_def encode_def send_blocks_def ids_loop.simps send_block_def nothing_stored)
  then show ?thesis
    using conformant_request_misread [of DTYPE_NODE "[replicate 32 4]" _ "[]" some_net some_conn, OF _ _ refl] nothing_stored by fastforce
qed

subsection \<open>Blocks\<close>

text \<open>The block that the handler sees begins three bytes early, with bytes of the size in front, and has its height where the time is.\<close>

lemma conformant_block_shift:
  assumes "msg = encode (Block_msg block) @ rest" "7 \<le> length block"
  shows "drop CTYPE_BLOCK_POS_BLOCK msg = drop 1 (enc32 (word_of_nat (length block))) @ block @ rest"
    "btoui e (drop CTYPE_BLOCK_POS_BLOCK msg) POS_BLOCK_HEIGHT = Inr (ntohl e (be32 (block ! 3) (block ! 4) (block ! 5) (block ! 6)))"
    "\<exists>sz. btoui e msg CTYPE_BLOCK_POS_SIZE = Inr sz"
proof -
  show d: "drop CTYPE_BLOCK_POS_BLOCK msg = drop 1 (enc32 (word_of_nat (length block))) @ block @ rest"
    by (simp add: assms(1) encode_def enc32_def)
  show "btoui e (drop CTYPE_BLOCK_POS_BLOCK msg) POS_BLOCK_HEIGHT = Inr (ntohl e (be32 (block ! 3) (block ! 4) (block ! 5) (block ! 6)))"
    using assms(2) by (simp add: d btoui_ok dec32_def mem_simps nth_append enc32_def)
  show "\<exists>sz. btoui e msg CTYPE_BLOCK_POS_SIZE = Inr sz"
    by (simp add: assms(1) btoui_ok encode_def enc32_def)
qed

lemma be32_shift: "unat (be32 b1 b2 b3 x) = 256 * (unat (be32 b0 b1 b2 b3) mod 2 ^ 24) + unat x"
proof -
  have "be32 b1 b2 b3 x = push_bit 8 (be32 b0 b1 b2 b3) OR ucast x"
    by (rule bit_word_eqI) (auto simp: be32_def bit_simps dest: bit_imp_le_length)
  also have "\<dots> = push_bit 8 (be32 b0 b1 b2 b3) + ucast x"
    by (rule disjunctive_add_eq_or [symmetric]) (rule bit_word_eqI, auto simp: bit_simps dest: bit_imp_le_length)
  finally have "be32 b1 b2 b3 x = 256 * be32 b0 b1 b2 b3 + ucast x" by (simp add: push_bit_eq_mult mult.commute)
  then have "unat (be32 b1 b2 b3 x) = (256 * unat (be32 b0 b1 b2 b3) + unat x) mod (256 * 2 ^ 24)"
    by (simp add: unat_word_ariths unsigned_ucast_eq take_bit_eq_mod mod_add_eq mod_mult_right_eq)
  also have "\<dots> = (256 * (unat (be32 b0 b1 b2 b3) mod 2 ^ 24) + unat x) mod (256 * 2 ^ 24)"
    by (metis mod_add_left_eq mod_mult_mult1)
  also have "\<dots> = 256 * (unat (be32 b0 b1 b2 b3) mod 2 ^ 24) + unat x"
  proof (rule mod_less)
    have "unat x < 256" using unsigned_less [of x] by simp
    moreover have "unat (be32 b0 b1 b2 b3) mod 2 ^ 24 < 2 ^ 24" by simp
    ultimately show "256 * (unat (be32 b0 b1 b2 b3) mod 2 ^ 24) + unat x < 256 * 2 ^ 24" by linarith
  qed
  finally show ?thesis .
qed

lemma above_two: "(k :: nat) + 2 \<le> 256 * n \<Longrightarrow> 2 < 256 * n + m"
  by (cases n) simp_all

text \<open>What becomes of the databases and the connection when a block goes to limbo.\<close>

definition to_limbo :: "'d net_env \<Rightarrow> bytes \<Rightarrow> 'd dbs \<Rightarrow> 'd dbs" where
  "to_limbo N b dbs =
     (let dbs = (if valid_block N b then data_blocks_add (msg_base N + 4) (bdb_e (env_n N)) (ext_e (env_n N)) dbs b else dbs)
      in dbs\<lparr>limbo_db := data_limbo_add N (limbo_db dbs) b\<rparr>)"

lemma on_block_high:
  assumes h: "btoui (host (env_n N)) (drop CTYPE_BLOCK_POS_BLOCK msg) POS_BLOCK_HEIGHT = Inr height" "chain_get_height (env_n N) (dbs_c c) = Inr chain_top"
      "\<exists>sz. btoui (host (env_n N)) msg CTYPE_BLOCK_POS_SIZE = Inr sz"
    and high: "2 < height" "chain_top \<le> height - 2" and b: "b = drop CTYPE_BLOCK_POS_BLOCK msg"
    and send: "\<forall>n. length (junk_e (env_n N) n) = n" "\<forall>raw. 0 \<le> sendto N raw" "2 + SIZE_SHA256 \<le> length (resp c)"
    and hash: "length (block_compute_hash (ext_e (env_n N)) b) = SIZE_SHA256"
  shows "\<exists>r. on_block N msg c = rbind (data_limbo_scan (env_n N) (to_limbo N b (dbs_c c))) (\<lambda>(dbs, out).
    Inr (c\<lparr>dbs_c := dbs, resp := r, sent := sent c @ [[0, DTYPE_BLOCK, 1] @ block_compute_hash (ext_e (env_n N)) b], announced := announced c @ out\<rparr>))"
proof -
  let ?h = "block_compute_hash (ext_e (env_n N)) b"
  let ?c = "c\<lparr>dbs_c := to_limbo N b (dbs_c c), resp := patch (resp c) 2 ?h\<rparr>"
  have "segment (patch (resp c) 2 ?h) 2 32 = ?h" using hash send(3) by (intro segment_patch_same) simp_all
  then obtain r where r: "send_list N CTYPE_GETDATA DTYPE_BLOCK 1 ?c =
      Inr (?c\<lparr>resp := r, sent := sent c @ [[0, DTYPE_BLOCK, 1] @ ?h]\<rparr>)"
    using send_list_ok [OF send(1,2), of 1 ?c CTYPE_GETDATA DTYPE_BLOCK] hash send(3) by (auto simp: mem_simps)
  have m: "memcpy (resp c) 2 ?h 0 32 = Inr (patch (resp c) 2 ?h)" using hash send(3) by (simp add: mem_simps)
  have "on_block N msg c = rbind (send_list N CTYPE_GETDATA DTYPE_BLOCK 1 ?c) (\<lambda>c.
      rbind (data_limbo_scan (env_n N) (dbs_c c)) (\<lambda>(dbs, out). Inr (c\<lparr>dbs_c := dbs, announced := announced c @ out\<rparr>)))"
    using h high m unfolding on_block_def place_block_def b by (auto simp: Let_def to_limbo_def split_beta)
  also have "\<dots> = rbind (data_limbo_scan (env_n N) (to_limbo N b (dbs_c c))) (\<lambda>(dbs, out).
      Inr (c\<lparr>dbs_c := dbs, resp := r, sent := sent c @ [[0, DTYPE_BLOCK, 1] @ ?h], announced := announced c @ out\<rparr>))"
    unfolding r by (cases c) simp
  finally show ?thesis by blast
qed

text \<open>
  C13. A block that conforms to the protocol does not get on the chain (big-endian hosts). The handler takes it to begin three bytes early, so the height it sees is made of the
  lower 24 bits of the time and the highest byte of the height; unless the time is tiny that is at least two above the chain. The node puts the shifted
  bytes into limbo and asks for their hash, whatever the block is and whether it continues the chain or not.
\<close>

theorem conformant_block_to_limbo:
  assumes "host (env_n N) = Big" "msg = encode (Block_msg block) @ rest" "SIZE_BLOCK_HEADER \<le> length block"
    and "chain_get_height (env_n N) (dbs_c c) = Inr chain_top"
    and "unat chain_top + 2 \<le> 256 * (unat (dec32 (segment block POS_BLOCK_TIME 4)) mod 2 ^ 24)"
    and "shifted = drop 1 (enc32 (word_of_nat (length block))) @ block @ rest"
    and "\<forall>n. length (junk_e (env_n N) n) = n" "\<forall>raw. 0 \<le> sendto N raw" "2 + SIZE_SHA256 \<le> length (resp c)"
    and "length (block_compute_hash (ext_e (env_n N)) shifted) = SIZE_SHA256"
  shows "\<exists>r. handle_message N msg c = rbind (data_limbo_scan (env_n N) (to_limbo N shifted (dbs_c c))) (\<lambda>(dbs, out).
    Inr (Continue, c\<lparr>dbs_c := dbs, resp := r, sent := sent c @ [[0, DTYPE_BLOCK, 1] @ block_compute_hash (ext_e (env_n N)) shifted],
      announced := announced c @ out\<rparr>))"
proof -
  let ?h = "be32 (block ! 3) (block ! 4) (block ! 5) (block ! 6)"
  have b: "drop CTYPE_BLOCK_POS_BLOCK msg = shifted" "btoui (host (env_n N)) (drop CTYPE_BLOCK_POS_BLOCK msg) POS_BLOCK_HEIGHT = Inr ?h"
    "\<exists>sz. btoui (host (env_n N)) msg CTYPE_BLOCK_POS_SIZE = Inr sz"
    using conformant_block_shift [OF assms(2)] assms(1,3,6) by simp_all
  have "dec32 (segment block POS_BLOCK_TIME 4) = be32 (block ! 2) (block ! 3) (block ! 4) (block ! 5)"
    using assms(3) by (simp add: dec32_def mem_simps)
  with assms(5) have n: "unat chain_top + 2 \<le> unat ?h"
    and "unat chain_top + 2 \<le> 256 * (unat (be32 (block ! 2) (block ! 3) (block ! 4) (block ! 5)) mod 2 ^ 24)"
    using be32_shift [of "block ! 3" "block ! 4" "block ! 5" "block ! 6" "block ! 2"] by simp_all
  moreover from this(2) have "2 < unat ?h"
    unfolding be32_shift [of "block ! 3" "block ! 4" "block ! 5" "block ! 6" "block ! 2"] by (rule above_two)
  ultimately have "2 < ?h" "chain_top \<le> ?h - 2" by (simp_all add: word_less_nat_alt word_le_nat_alt unat_sub)
  from on_block_high [OF b(2) assms(4) b(3) this b(1) [symmetric] assms(7-10)]
  obtain r where "on_block N msg c = rbind (data_limbo_scan (env_n N) (to_limbo N shifted (dbs_c c))) (\<lambda>(dbs, out).
    Inr (c\<lparr>dbs_c := dbs, resp := r, sent := sent c @ [[0, DTYPE_BLOCK, 1] @ block_compute_hash (ext_e (env_n N)) shifted], announced := announced c @ out\<rparr>))"
    by blast
  moreover have "handle_message N msg c = rbind (on_block N msg c) (\<lambda>c. Inr (Continue, c))"
    unfolding assms(2) handle_conformant by (simp add: dispatch_def)
  ultimately show ?thesis by (intro exI [of _ r]) (simp add: rbind_def split: sum.splits prod.splits)
qed

text \<open>A block of the year 2015 for an empty node, with a chain of height 7.\<close>

lemma some_chain_height: "chain_get_height (env_n some_net) (dbs_c some_conn) = Inr 7"
  by (simp add: some_net_def some_env_def some_conn_def chain_get_height_def data_chain_get_height_def data_VAR_get_height_def alist_bdb_def
      some_dbs_def some_ext_def)

definition block_2015 :: bytes where
  "block_2015 = [0, 1] @ enc32 1435969063 @ enc32 8 @ replicate 73 0"

theorem conformant_block_to_limbo_witness:
  "\<exists>r. handle_message some_net (encode (Block_msg block_2015)) some_conn =
    rbind (data_limbo_scan some_env (to_limbo some_net ([0, 0, 83] @ block_2015) some_dbs)) (\<lambda>(dbs, out).
      Inr (Continue, some_conn\<lparr>dbs_c := dbs, resp := r, sent := [[0, 0, 1] @ replicate 32 2], announced := out\<rparr>))"
proof -
  have E: "host (env_n some_net) = Big" "env_n some_net = some_env" "ext_e some_env = some_ext" "block_compute_hash some_ext b = replicate 32 2" for b
    by (simp_all add: some_net_def some_env_def some_ext_def)
  have c: "resp some_conn = replicate 40 0" "sent some_conn = []" "announced some_conn = []" "dbs_c some_conn = some_dbs"
    by (simp_all add: some_conn_def)
  have b: "length block_2015 = 83" "dec32 (segment block_2015 2 4) = 1435969063" "drop 1 (enc32 (word_of_nat 83)) = [0, 0, 83]"
    by (simp_all add: block_2015_def mem_simps) (simp add: enc32_def)
  show ?thesis
    using conformant_block_to_limbo [of some_net _ block_2015 "[]" some_conn 7, OF _ refl _ some_chain_height _ refl some_net_sends] E b c by simp
qed

subsection \<open>Transactions\<close>

lemma unat_be16: "unat (be16 a b) = 256 * unat a + unat b"
proof -
  have "unat a < 256" "unat b < 256" using unsigned_less [of a] unsigned_less [of b] by simp_all
  moreover have "be16 a b = push_bit 8 (ucast a) + ucast b"
    unfolding be16_def
    by (rule disjunctive_add_eq_or [symmetric]) (rule bit_word_eqI, auto simp: bit_simps dest: bit_imp_le_length)
  ultimately show ?thesis
    by (simp add: push_bit_eq_mult unat_word_ariths unsigned_ucast_eq take_bit_eq_mod)
qed



end
