(* ===== verification/Printing.thy ===== *)
theory Printing
  imports Util Shared
begin

text \<open>
  \<^verbatim>\<open>src/src/printing.c\<close>, and the functions elsewhere that only print: \<^verbatim>\<open>succeed\<close> of \<^verbatim>\<open>src/src/mine/mine.c\<close> and
  \<^verbatim>\<open>midstate_test\<close> of \<^verbatim>\<open>src/src/testing/testing.c\<close>.

  Text is a list of bytes; the standard output is the text printed so far. \<open>printf\<close> models the directives that the program uses, \<^verbatim>\<open>%d\<close>,
  \<^verbatim>\<open>%s\<close> and \<^verbatim>\<open>%02x\<close>; a directive without an argument of its kind is undefined behaviour, here an error. In the rest of the development \<^verbatim>\<open>fatal\<close> is the error
  \<open>Fatal\<close> and the output is left out.
\<close>

subsection \<open>\<^verbatim>\<open>printf\<close>\<close>

definition ascii :: "string \<Rightarrow> bytes" where
  "ascii s = map of_char s"

datatype printf_arg = Int_arg int | Str_arg bytes | Hex_arg uchar

fun decimal_nat :: "nat \<Rightarrow> bytes" where
  "decimal_nat n = (if n < 10 then [48 + word_of_nat n] else decimal_nat (n div 10) @ [48 + word_of_nat (n mod 10)])"

declare decimal_nat.simps [simp del]

definition decimal :: "int \<Rightarrow> bytes" where
  "decimal i = (if i < 0 then 45 # decimal_nat (nat (- i)) else decimal_nat (nat i))"

definition hex_digit :: "uchar \<Rightarrow> uchar" where
  "hex_digit n = (if n < 10 then 48 + n else 87 + n)"

definition hex2 :: "uchar \<Rightarrow> bytes" where
  "hex2 b = [hex_digit (drop_bit 4 b), hex_digit (b AND 15)]"

text \<open>37 is the percent sign, 100, 115 and 120 the letters \<^verbatim>\<open>d\<close>, \<^verbatim>\<open>s\<close> and \<^verbatim>\<open>x\<close>, 48 and 50 the digits 0 and 2.\<close>

fun format :: "bytes \<Rightarrow> printf_arg list \<Rightarrow> bytes option" where
  "format [] as = Some []"
| "format (c # cs) as =
     (if c = 37 then
        (case as of
           Int_arg i # as' \<Rightarrow>
             (case cs of d # cs' \<Rightarrow> if d = 100 then map_option (append (decimal i)) (format cs' as') else None | [] \<Rightarrow> None)
         | Str_arg s # as' \<Rightarrow>
             (case cs of d # cs' \<Rightarrow> if d = 115 then map_option (append s) (format cs' as') else None | [] \<Rightarrow> None)
         | Hex_arg b # as' \<Rightarrow>
             (case cs of d0 # d1 # d2 # cs' \<Rightarrow>
                if [d0, d1, d2] = [48, 50, 120] then map_option (append (hex2 b)) (format cs' as') else None
              | _ \<Rightarrow> None)
         | [] \<Rightarrow> None)
      else map_option (Cons c) (format cs as))"

definition printf :: "bytes \<Rightarrow> bytes \<Rightarrow> printf_arg list \<Rightarrow> bytes res" where
  "printf out fmt as = (case format fmt as of None \<Rightarrow> Inl BadPointer | Some s \<Rightarrow> Inr (out @ s))"

subsection \<open>\<^verbatim>\<open>printing.c\<close>\<close>

definition print_version :: "bytes \<Rightarrow> bytes res" where
  "print_version out = printf out (ascii ''Version %d '' @ [10]) [Int_arg (uint VERSION)]"

definition print_greeting :: "bytes \<Rightarrow> bytes res" where
  "print_greeting out =
     rbind (printf out (ascii ''##############'' @ [10]) []) (\<lambda>out.
     rbind (printf out (ascii ''## freecoin ##'' @ [10]) []) (\<lambda>out.
     rbind (printf out (ascii ''##############'' @ [10]) []) (\<lambda>out.
     print_version out)))"

text \<open>The source passes on \<^verbatim>\<open>format\<close>, which is not declared, for the parameter \<^verbatim>\<open>string\<close>.\<close>

definition v_printf :: "bytes \<Rightarrow> bytes \<Rightarrow> printf_arg list \<Rightarrow> bytes res" where
  "v_printf out fmt as = (if VERBOSE \<noteq> 0 then printf out fmt as else Inr out)"

text \<open>The output of \<^verbatim>\<open>fatal\<close> and the status the program exits with.\<close>

definition fatal :: "bytes \<Rightarrow> bytes \<Rightarrow> printf_arg list \<Rightarrow> (bytes \<times> int) res" where
  "fatal out fmt as =
     rbind (printf out (ascii ''Fatal: '') []) (\<lambda>out.
     rbind (printf out fmt as) (\<lambda>out.
     rbind (printf out [10] []) (\<lambda>out.
     Inr (out, 1))))"

subsection \<open>Hashes\<close>

text \<open>\<^verbatim>\<open>for (int i = 0; i < n; i++) printf("%02x", mem[i])\<close>, first argument \<^verbatim>\<open>n - i\<close>.\<close>

primrec print_hex_loop :: "nat \<Rightarrow> nat \<Rightarrow> bytes \<Rightarrow> bytes \<Rightarrow> bytes res" where
  "print_hex_loop 0 i mem out = Inr out"
| "print_hex_loop (Suc n) i mem out =
     rbind (load mem i) (\<lambda>b.
     rbind (printf out (ascii ''%02x'') [Hex_arg b]) (print_hex_loop n (i + 1) mem))"

definition succeed :: "bytes \<Rightarrow> bytes \<Rightarrow> bytes \<Rightarrow> bytes res" where
  "succeed out block hash =
     rbind (printf out (ascii ''Valid block found!'' @ [10]) []) (\<lambda>out.
     rbind (print_hex_loop SIZE_SHA256 0 hash out) (\<lambda>out.
     printf out [10, 10] []))"

text \<open>\<open>junk\<close> is the contents of \<^verbatim>\<open>block\<close> as allocated; \<^verbatim>\<open>main\<close> of the test program calls \<^verbatim>\<open>midstate_test\<close> and returns 0.\<close>

definition midstate_test :: "bytes \<Rightarrow> bytes \<Rightarrow> bytes res" where
  "midstate_test junk out =
     rbind (print_hex_loop 256 0 junk out) (\<lambda>out.
     rbind (printf out [10, 10, 10, 10] []) (\<lambda>out.
     print_hex_loop 256 0 junk out))"

definition testing_main :: "bytes \<Rightarrow> bytes \<Rightarrow> (bytes \<times> int) res" where
  "testing_main junk out = rbind (midstate_test junk out) (\<lambda>out. Inr (out, 0))"

subsection \<open>Printed hashes can be read back\<close>

lemma format_hex: "format (ascii ''%02x'') [Hex_arg b] = Some (hex2 b)"
  by (simp add: ascii_def)

lemma format_plain: "37 \<notin> set cs \<Longrightarrow> format cs as = Some cs"
  by (induction cs) auto

lemma print_hex_loop_ok:
  "i + n \<le> length mem \<Longrightarrow> print_hex_loop n i mem out = Inr (out @ concat (map hex2 (segment mem i n)))"
proof (induction n arbitrary: i out)
  case (Suc n)
  have "segment mem i (Suc n) = mem ! i # segment mem (i + 1) n"
    using Suc.prems by (simp add: segment_def Cons_nth_drop_Suc [symmetric])
  with Suc show ?case by (simp add: printf_def format_hex)
qed (simp add: segment_def)

lemma hexc_hex_digit: "n < 16 \<Longrightarrow> hexc_to_nibble (hex_digit n) = n"
proof -
  assume "n < 16"
  then have n: "unat n < 16" by (simp add: word_less_nat_alt)
  show ?thesis
  proof (cases "n < 10")
    case True
    then have "unat (48 + n) = 48 + unat n" by (simp add: unat_word_ariths word_less_nat_alt)
    with True show ?thesis by (simp add: hexc_to_nibble_def hex_digit_def word_le_nat_alt word_less_nat_alt)
  next
    case False
    then have "unat (87 + n) = 87 + unat n" using n by (simp add: unat_word_ariths)
    with False n show ?thesis by (simp add: hexc_to_nibble_def hex_digit_def word_le_nat_alt word_less_nat_alt)
  qed
qed

lemma unhex_hex2: "unhex_pair (hex_digit (drop_bit 4 b)) (hex_digit (b AND 15)) = b"
proof -
  have hi: "drop_bit 4 b < 16"
  proof -
    have "unat (drop_bit 4 b) = unat b div 16" unfolding unat_drop_bit_eq by (simp add: drop_bit_eq_div)
    moreover have "unat b < 256" using unsigned_less [of b] by simp
    ultimately show ?thesis by (simp add: word_less_nat_alt)
  qed
  have m: "(15 :: uchar) = mask 4" by (simp add: mask_eq_exp_minus_1)
  have lo: "b AND 15 < 16"
    unfolding m using and_mask_less' [of 4 b] by simp
  have "push_bit 4 (drop_bit 4 b) OR (b AND 15) = b"
    unfolding m by (rule bit_word_eqI) (auto simp: bit_simps)
  then show ?thesis by (simp add: unhex_pair_def hexc_hex_digit hi lo)
qed

text \<open>
  What the miner prints when it finds a block can be read back: after the line \<^verbatim>\<open>Valid block found!\<close> come 64 digits, from which
  \<^verbatim>\<open>hexstr_to_bytes\<close> gives the hash, for every hash; then two newlines. (The program's own printer \<^verbatim>\<open>bytes_to_hexstr\<close> does not have this property.)
\<close>

lemma succeed_prints_hash:
  assumes "length hash = SIZE_SHA256" "length dst = SIZE_SHA256"
  shows "\<exists>digits. succeed out block hash = Inr (out @ ascii ''Valid block found!'' @ [10] @ digits @ [10, 10])
    \<and> length digits = 64 \<and> hexstr_to_bytes dst digits SIZE_SHA256 = Inr hash"
proof (intro exI conjI)
  let ?digits = "concat (map hex2 hash)"
  have seg: "segment hash 0 32 = hash" using assms(1) by (simp add: segment_def)
  have "format (ascii ''Valid block found!'' @ [10]) [] = Some (ascii ''Valid block found!'' @ [10])"
    by (rule format_plain) (simp add: ascii_def)
  then show "succeed out block hash = Inr (out @ ascii ''Valid block found!'' @ [10] @ ?digits @ [10, 10])"
    using assms(1) by (simp add: succeed_def printf_def print_hex_loop_ok seg)
  have two: "length (hex2 b) = 2" for b by (simp add: hex2_def)
  then have "length (concat (map hex2 xs)) = 2 * length xs" for xs by (induction xs) auto
  with assms(1) show "length ?digits = 64" by simp
  have "map (\<lambda>b. unhex_pair (hex2 b ! 0) (hex2 b ! 1)) hash = hash" by (simp add: hex2_def unhex_hex2)
  with hexstr_of_pairs [of hex2 dst hash, OF two] assms show "hexstr_to_bytes dst ?digits SIZE_SHA256 = Inr hash" by simp
qed

lemma succeed_prints_hash_witness:
  "\<exists>digits. succeed [] [] (replicate 32 0xAB) = Inr (ascii ''Valid block found!'' @ [10] @ digits @ [10, 10])
    \<and> hexstr_to_bytes (replicate 32 0) digits 32 = Inr (replicate 32 0xAB)"
  using succeed_prints_hash [of "replicate 32 0xAB" "replicate 32 0" "[]" "[]"] by auto

end
