(* ===== verification/Validation.thy ===== *)
theory Validation
  imports Limbo
begin

text \<open>
  \<^verbatim>\<open>src/src/validation.c\<close>: whether a block can be connected to the chain.

  The file is unfinished. \<^verbatim>\<open>valid_block\<close> has an empty body and \<^verbatim>\<open>_data_limbo_scan_can_trace_back\<close>, which is called for the previous
  block, has one in \<^verbatim>\<open>data.c\<close>; the values read from them are arguments. In
  \<^verbatim>\<open>_internal_valid_connectable_to_chain\<close> the condition \<^verbatim>\<open>if ( ! valid_block(buffer)\<close> has no closing parenthesis; with the parenthesis, and the opening brace
  of the function, the statement that follows is its body. The height that the call of \<^verbatim>\<open>data_chain_exists\<close> lacks is an argument,
  \<^verbatim>\<open>data_chain_get_height()\<close> gets the databases.
\<close>

record 'd val_env =
  env_v :: "'d env"
  valid_block_v :: "bytes \<Rightarrow> int"
  height_v :: uint
  trace_back_v :: "'d dbs \<Rightarrow> bytes \<Rightarrow> uchar \<Rightarrow> bytes \<Rightarrow> int"

text \<open>The value, and the hash buffer and the block buffer afterwards.\<close>

definition internal_valid_connectable_to_chain ::
  "'d val_env \<Rightarrow> 'd dbs \<Rightarrow> bytes \<Rightarrow> uchar \<Rightarrow> bytes \<Rightarrow> (int \<times> bytes \<times> bytes) res" where
  "internal_valid_connectable_to_chain V dbs start_hash check_validity buf =
     (let E = env_v V; buf = snd (data_blocks_get (bdb_e E) dbs start_hash buf) in
      if valid_block_v V buf = 0 then
        rbind (btoui (host E) buf POS_BLOCK_HEIGHT) (\<lambda>height.
        rbind (chain_get_height E dbs) (\<lambda>chain_height.
        if height > chain_height - REASONABLE_CONFIRMATIONS then
          rbind (data_chain_exists (host E) (junk_e E SIZE_SHA256) (bdb_e E) dbs (height_v V) start_hash) (\<lambda>found.
          if found \<noteq> 0 then Inr (1, start_hash, buf)
          else
            rbind (memcpy start_hash 0 buf POS_BLOCK_PREV_HASH SIZE_SHA256) (\<lambda>start_hash.
            Inr (trace_back_v V dbs start_hash check_validity buf, start_hash, buf)))
        else Inr (0, start_hash, buf)))
      else Inr (0, start_hash, buf))"

definition valid_connectable_to_chain :: "'d val_env \<Rightarrow> 'd dbs \<Rightarrow> bytes \<Rightarrow> uchar \<Rightarrow> int res" where
  "valid_connectable_to_chain V dbs start_hash check_validity =
     (let E = env_v V in
      rbind (memcpy (junk_e E SIZE_SHA256) 0 start_hash 0 SIZE_SHA256) (\<lambda>start_hash_buffer.
      rbind (internal_valid_connectable_to_chain V dbs start_hash_buffer check_validity (junk_e E (unat MAX_BLOCK_SIZE)))
        (\<lambda>(ret, start_hash_buffer, buf). Inr ret)))"

lemma young_chain_bound:
  assumes "chain_height < REASONABLE_CONFIRMATIONS" "unat height \<le> 2 ^ 32 - 6 + unat chain_height"
  shows "\<not> height > chain_height - REASONABLE_CONFIRMATIONS"
proof -
  have c: "unat chain_height < 6" using assms(1) by (simp add: word_less_nat_alt)
  have "unat (chain_height - 6) = 2 ^ 32 - 6 + unat chain_height"
    using c by (simp add: unat_sub_if' word_le_nat_alt)
  with assms(2) show ?thesis by (simp add: word_less_nat_alt)
qed


definition some_val :: "(bytes \<times> bytes) list val_env" where
  "some_val = \<lparr>env_v = some_env\<lparr>ext_e := some_ext\<lparr>block_get_height := \<lambda>_. 3\<rparr>\<rparr>, valid_block_v = (\<lambda>_. 0), height_v = 3, trace_back_v = (\<lambda>_ _ _ _. 1)\<rparr>"


end
