(* ===== verification/Echo.thy ===== *)
theory Echo
  imports Printing
begin

text \<open>
  The socket experiments under \<^verbatim>\<open>src/misc/net-testing\<close>: an echo server and its client, the socket helpers of \<^verbatim>\<open>inet.c\<close> and \<^verbatim>\<open>peers.c\<close>, and
  a sender of lines (\<^verbatim>\<open>old/proto.c\<close> is empty).

  What the system calls return is an argument. A call of \<^verbatim>\<open>recv\<close> or \<^verbatim>\<open>read\<close> gives \<open>Some\<close> the bytes received, no bytes when the peer has shut down, or
  \<open>None\<close> for an error. A run of a loop is given the results of its calls in order; when they are used up the program waits. The labels given to \<^verbatim>\<open>perror\<close> are
  collected, and \<open>Fatal\<close> is a label with which the program exits.
\<close>

subsection \<open>Strings in arrays\<close>

text \<open>The text up to the terminating zero byte; without one \<^verbatim>\<open>strlen\<close>, \<^verbatim>\<open>puts\<close> and \<^verbatim>\<open>%s\<close> read past the array.\<close>

definition c_string :: "bytes \<Rightarrow> bytes res" where
  "c_string buf = (if 0 \<in> set buf then Inr (takeWhile (\<lambda>b. b \<noteq> 0) buf) else Inl OutOfBounds)"

definition puts :: "bytes \<Rightarrow> bytes \<Rightarrow> bytes" where
  "puts out s = out @ s @ [10]"

subsection \<open>The server\<close>

record server =
  out_s :: bytes
  errors_s :: "string list"
  wrote :: "bytes list"
  freed_s :: bool

text \<open>The body of the loop of \<^verbatim>\<open>connection_handler\<close>, with the bytes received.\<close>

definition echo_message :: "bytes \<Rightarrow> bytes \<Rightarrow> server \<Rightarrow> (bytes \<times> server) res" where
  "echo_message bs client_message s =
     rbind (mem_write client_message 0 bs) (\<lambda>client_message.
     rbind (c_string client_message) (\<lambda>str.
     rbind (printf (out_s s) (ascii ''send %s'' @ [10]) [Str_arg str]) (\<lambda>out.
     Inr (client_message, s\<lparr>out_s := out, wrote := wrote s @ [str]\<rparr>))))"

primrec connection_handler :: "bytes option list \<Rightarrow> bytes \<Rightarrow> server \<Rightarrow> server res" where
  "connection_handler [] client_message s = Inr s"
| "connection_handler (r # rs) client_message s =
     (case r of
        None \<Rightarrow> Inr (s\<lparr>errors_s := errors_s s @ [''recv failed''], freed_s := True\<rparr>)
      | Some bs \<Rightarrow>
          if bs = [] then Inr (s\<lparr>out_s := puts (out_s s) (ascii ''Client disconnected''), freed_s := True\<rparr>)
          else rbind (echo_message bs client_message s) (\<lambda>(client_message, s). connection_handler rs client_message s))"

text \<open>
  The accept loop of \<^verbatim>\<open>main\<close>: each accepted connection comes with the result of \<^verbatim>\<open>pthread_create\<close> and what its thread receives; the thread is joined at
  once. \<open>junk\<close> gives the contents of memory as allocated. The descriptor, an \<^verbatim>\<open>int\<close>, is stored in an area of one byte. The result is
  the status, none while \<^verbatim>\<open>main\<close> waits in \<^verbatim>\<open>accept\<close>. An accept that fails, with \<open>-1\<close>, is a connection to this loop.
\<close>

primrec accept_loop ::
  "endian \<Rightarrow> (nat \<Rightarrow> bytes) \<Rightarrow> (int \<times> int \<times> bytes option list) list \<Rightarrow> server \<Rightarrow> (int option \<times> server) res" where
  "accept_loop e junk [] s = Inr (None, s)"
| "accept_loop e junk (a # as) s =
     (case a of (client_sock, created, rs) \<Rightarrow>
        if client_sock \<noteq> 0 then
          let s = s\<lparr>out_s := puts (out_s s) (ascii ''Connection accepted'')\<rparr> in
          rbind (mem_write (junk 1) 0 (host_bytes e (word_of_int client_sock))) (\<lambda>new_sock.
          if created < 0 then Inr (Some 1, s\<lparr>errors_s := errors_s s @ [''could not create thread'']\<rparr>)
          else rbind (connection_handler rs (junk 2000) s) (\<lambda>s.
               accept_loop e junk as (s\<lparr>out_s := puts (out_s s) (ascii ''Handler assigned'')\<rparr>)))
        else if client_sock < 0 then Inr (Some 1, s\<lparr>errors_s := errors_s s @ [''accept failed'']\<rparr>)
        else Inr (Some 0, s))"

definition server_main ::
  "endian \<Rightarrow> (nat \<Rightarrow> bytes) \<Rightarrow> int \<Rightarrow> int \<Rightarrow> (int \<times> int \<times> bytes option list) list \<Rightarrow> server \<Rightarrow> (int option \<times> server) res" where
  "server_main e junk socket_desc bound as s =
     (let out = (if socket_desc = -1 then out_s s @ ascii ''Could not create socket'' else out_s s);
          s = s\<lparr>out_s := puts out (ascii ''Socket created'')\<rparr>
      in if bound < 0 then Inr (Some 1, s\<lparr>errors_s := errors_s s @ [''bind failed. Error'']\<rparr>)
         else accept_loop e junk as
                (s\<lparr>out_s := puts (puts (out_s s) (ascii ''bind done'')) (ascii ''Waiting for incoming connections...'')\<rparr>))"

subsection \<open>The client\<close>

record client =
  out_c :: bytes
  errors_c :: "string list"
  sent_c :: "bytes list"
  closed_c :: bool

text \<open>
  One round of \<^verbatim>\<open>main\<close>: \<^verbatim>\<open>message[0]\<close> gets the number of characters in the prompt and \<^verbatim>\<open>scanf("%s", message)\<close> stores a word with a zero byte, or nothing at the end
  of the input (\<open>None\<close>); then the results of \<^verbatim>\<open>send\<close> and \<^verbatim>\<open>recv\<close>. The first component of the result is the status when \<^verbatim>\<open>main\<close> returns.
\<close>

definition prompt :: bytes where
  "prompt = ascii ''Enter message : ''"

definition client_round ::
  "bytes option \<Rightarrow> int \<Rightarrow> bytes option \<Rightarrow> bytes \<Rightarrow> bytes \<Rightarrow> client \<Rightarrow> (int option \<times> bytes \<times> bytes \<times> client) res" where
  "client_round word send_ret received message server_reply c =
     (let c = c\<lparr>out_c := out_c c @ prompt\<rparr> in
      rbind (store message 0 (word_of_nat (length prompt))) (\<lambda>message.
      rbind (case word of None \<Rightarrow> Inr message | Some w \<Rightarrow> mem_write message 0 (w @ [0])) (\<lambda>message.
      rbind (c_string message) (\<lambda>str.
      rbind (mem_read message 0 (length str + 1)) (\<lambda>raw.
      if send_ret < 0 then Inr (Some 1, message, server_reply, c\<lparr>out_c := puts (out_c c) (ascii ''Send failed'')\<rparr>)
      else
        let c = c\<lparr>sent_c := sent_c c @ [raw]\<rparr> in
        case received of
          None \<Rightarrow> Inr (Some 0, message, server_reply, c\<lparr>out_c := puts (out_c c) (ascii ''recv failed''), closed_c := True\<rparr>)
        | Some bs \<Rightarrow>
            rbind (mem_write server_reply 0 bs) (\<lambda>server_reply.
            rbind (c_string server_reply) (\<lambda>reply.
            Inr (None, message, server_reply, c\<lparr>out_c := puts (puts (out_c c) (ascii ''Server reply :'')) reply\<rparr>))))))))"

primrec client_loop ::
  "(bytes option \<times> int \<times> bytes option) list \<Rightarrow> bytes \<Rightarrow> bytes \<Rightarrow> client \<Rightarrow> (int option \<times> client) res" where
  "client_loop [] message server_reply c = Inr (None, c)"
| "client_loop (r # rs) message server_reply c =
     (case r of (word, send_ret, received) \<Rightarrow>
        rbind (client_round word send_ret received message server_reply c) (\<lambda>(status, message, server_reply, c).
        if status \<noteq> None then Inr (status, c) else client_loop rs message server_reply c))"

definition client_main ::
  "(nat \<Rightarrow> bytes) \<Rightarrow> int \<Rightarrow> int \<Rightarrow> (bytes option \<times> int \<times> bytes option) list \<Rightarrow> client \<Rightarrow> (int option \<times> client) res" where
  "client_main junk sock connected rs c =
     (let out = (if sock = -1 then out_c c @ ascii ''Could not create socket'' else out_c c);
          c = c\<lparr>out_c := puts out (ascii ''Socket created'')\<rparr>
      in if connected < 0 then Inr (Some 1, c\<lparr>errors_c := errors_c c @ [''connect failed. Error'']\<rparr>)
         else client_loop rs (junk 1000) (junk 2000) (c\<lparr>out_c := puts (out_c c) (ascii ''Connected'' @ [10])\<rparr>))"

subsection \<open>Socket helpers\<close>

text \<open>
  \<^verbatim>\<open>old/inet.c\<close>. \<open>AF_INET\<close> is a number of the platform. \<^verbatim>\<open>gethostbyname\<close> gives an address, already in network order, or a null pointer.
\<close>

record sockaddr_in =
  sin_family :: ushort
  sin_port :: ushort
  sin_addr :: uint

definition make_socket :: "endian \<Rightarrow> ushort \<Rightarrow> int \<Rightarrow> (sockaddr_in \<Rightarrow> int) \<Rightarrow> sockaddr_in \<Rightarrow> ushort \<Rightarrow> (int \<times> sockaddr_in) res" where
  "make_socket e AF_INET sock bind_fn name port =
     (if sock < 0 then Inl (Fatal ''socket'')
      else
        let name = name\<lparr>sin_family := AF_INET, sin_port := ntohs e port, sin_addr := ntohl e 0\<rparr> in
        if bind_fn name < 0 then Inl (Fatal ''bind'') else Inr (sock, name))"

definition init_sockaddr :: "endian \<Rightarrow> ushort \<Rightarrow> (bytes \<Rightarrow> uint option) \<Rightarrow> sockaddr_in \<Rightarrow> bytes \<Rightarrow> ushort \<Rightarrow> sockaddr_in res" where
  "init_sockaddr e AF_INET gethostbyname name hostname port =
     (let name = name\<lparr>sin_family := AF_INET, sin_port := ntohs e port\<rparr> in
      case gethostbyname hostname of
        None \<Rightarrow> Inl (Fatal ''Unknown host %s.'')
      | Some h_addr \<Rightarrow> Inr (name\<lparr>sin_addr := h_addr\<rparr>))"

text \<open>
  \<^verbatim>\<open>old/peers.c\<close>: the value returned and the standard output. The buffer is printed as a string though nothing terminates what was read.
\<close>

definition read_from_client :: "(nat \<Rightarrow> bytes) \<Rightarrow> bytes option \<Rightarrow> bytes \<Rightarrow> (int \<times> bytes) res" where
  "read_from_client junk received out =
     (case received of
        None \<Rightarrow> Inl (Fatal ''read'')
      | Some bs \<Rightarrow>
          if bs = [] then Inr (-1, out)
          else
            rbind (mem_write (junk 512) 0 bs) (\<lambda>buf.
            rbind (c_string buf) (\<lambda>str.
            rbind (printf out (ascii ''Server: got message: `%s'' @ [39, 10]) [Str_arg str]) (\<lambda>out.
            Inr (0, out)))))"

definition peers_MESSAGE :: bytes where
  "peers_MESSAGE = ascii ''Yow!!! Are we having fun yet?!?''"

text \<open>The bytes given to \<^verbatim>\<open>write\<close>, whose result is an argument.\<close>

definition write_to_server :: "(bytes \<Rightarrow> int) \<Rightarrow> bytes res" where
  "write_to_server write_fn =
     (let raw = peers_MESSAGE @ [0] in if write_fn raw < 0 then Inl (Fatal ''write'') else Inr raw)"

subsection \<open>Sending lines\<close>

text \<open>
  The loop of \<^verbatim>\<open>temp-net-send-example.c\<close>: the calls \<^verbatim>\<open>fgets(sendline, 10000, stdin)\<close>, each storing a text of at most 9999 characters that ends with the first newline or the end of the input,
  and a zero byte; \<^verbatim>\<open>sendline\<close> has 1000 bytes. The state is what was sent and whether the connection was closed.
\<close>

primrec send_lines :: "(bytes \<Rightarrow> int) \<Rightarrow> bytes list \<Rightarrow> bytes \<Rightarrow> bytes list \<times> bool \<Rightarrow> (bytes list \<times> bool) res" where
  "send_lines sendto_fn [] sendline st = Inr st"
| "send_lines sendto_fn (l # ls) sendline st =
     rbind (mem_write sendline 0 (l @ [0])) (\<lambda>sendline.
     rbind (c_string sendline) (\<lambda>str.
     let closed = (snd st \<or> str = ascii ''debug_close'') in
     if sendto_fn str < 0 then Inl (Fatal ''Send to peer failed. ERRNO %d'')
     else send_lines sendto_fn ls sendline (fst st @ [str], closed)))"

text \<open>\<^verbatim>\<open>main\<close>, with the result of \<^verbatim>\<open>start_client_conn\<close>; the listener thread is joined at the end.\<close>

definition send_example_main :: "(nat \<Rightarrow> bytes) \<Rightarrow> int res \<Rightarrow> (int \<Rightarrow> bytes \<Rightarrow> int) \<Rightarrow> bytes list \<Rightarrow> (int \<times> bytes list \<times> bool) res" where
  "send_example_main junk client_conn sendto_fn ls =
     rbind client_conn (\<lambda>client_peer.
     rbind (send_lines (sendto_fn client_peer) ls (junk 1000) ([], False)) (\<lambda>st.
     Inr (0, st)))"

subsection \<open>An echo session\<close>

text \<open>What the client shows: a reply overwrites the beginning of the reply before and is not terminated.\<close>

primrec shown_replies :: "bytes \<Rightarrow> bytes list \<Rightarrow> bytes list" where
  "shown_replies t [] = []"
| "shown_replies t (w # ws) = (w @ drop (length w) t) # shown_replies (w @ drop (length w) t) ws"

definition is_word :: "bytes \<Rightarrow> bool" where
  "is_word w \<longleftrightarrow> w \<noteq> [] \<and> 0 \<notin> set w \<and> length w < 1000"

lemma c_string_zero: "0 \<notin> set w \<Longrightarrow> c_string (w @ 0 # rest) = Inr w"
  by (induction w) (auto simp: c_string_def)

lemma c_string_patch:
  assumes "0 \<notin> set w"
  shows "c_string (patch buf 0 (w @ [0])) = Inr w"
  using c_string_zero [OF assms, of "drop (length w + 1) buf"] by (simp add: patch_def)

lemma format_send: "format (ascii ''send %s'' @ [10]) [Str_arg s] = Some (ascii ''send '' @ s @ [10])"
  by (simp add: ascii_def)

lemma connection_handler_echoes:
  assumes "\<forall>w \<in> set ws. is_word w" "length buf = 2000"
  shows "\<exists>s'. connection_handler (map (\<lambda>w. Some (w @ [0])) ws) buf s = Inr s' \<and> wrote s' = wrote s @ ws"
  using assms
proof (induction ws arbitrary: buf s)
  case (Cons w ws)
  then have w: "0 \<notin> set w" "length w < 1000" by (simp_all add: is_word_def)
  have "echo_message (w @ [0]) buf s =
    Inr (patch buf 0 (w @ [0]), s\<lparr>out_s := out_s s @ ascii ''send '' @ w @ [10], wrote := wrote s @ [w]\<rparr>)"
    using w Cons.prems(2) by (simp add: echo_message_def mem_simps c_string_patch printf_def format_send)
  moreover have "length (patch buf 0 (w @ [0])) = 2000" using w Cons.prems(2) by (simp add: mem_simps)
  ultimately show ?case using Cons.IH [of "patch buf 0 (w @ [0])"] Cons.prems(1) by fastforce
qed simp

text \<open>The client's buffer holds the text shown last, and zero bytes behind it.\<close>

definition holds :: "bytes \<Rightarrow> bytes \<Rightarrow> bool" where
  "holds t reply \<longleftrightarrow> length reply = 2000 \<and> 0 \<notin> set t \<and> length t < 1000 \<and> reply = t @ replicate (2000 - length t) 0"

lemma holds_patch:
  assumes "holds t reply" "is_word w"
  shows "holds (w @ drop (length w) t) (patch reply 0 w)"
proof -
  have "drop (length w) reply = drop (length w) t @ replicate (2000 - max (length w) (length t)) 0"
    using assms by (auto simp: holds_def is_word_def max_def)
  moreover have "0 \<notin> set (drop (length w) t)" using assms(1) by (auto simp: holds_def dest: in_set_dropD)
  ultimately show ?thesis using assms by (auto simp: holds_def is_word_def patch_def max_def)
qed

lemma c_string_holds: "holds t reply \<Longrightarrow> c_string reply = Inr t"
  using c_string_zero [of t "replicate (1999 - length t) 0"] Suc_diff_le [of "length t" 1999]
  by (auto simp: holds_def simp flip: replicate_Suc)

definition shown_round :: "bytes \<Rightarrow> bytes" where
  "shown_round t = prompt @ ascii ''Server reply :'' @ [10] @ t @ [10]"

lemma client_round_word:
  assumes "is_word w" "length message = 1000" "holds t reply"
  shows "\<exists>message'. client_round (Some w) 0 (Some w) message reply c =
      Inr (None, message', patch reply 0 w,
           c\<lparr>out_c := out_c c @ shown_round (w @ drop (length w) t), sent_c := sent_c c @ [w @ [0]]\<rparr>)
    \<and> length message' = 1000"
proof (intro exI conjI)
  let ?m = "patch (message[0 := word_of_nat (length prompt)]) 0 (w @ [0])"
  have w: "0 \<notin> set w" "length w < 1000" "length w \<le> length reply" using assms by (simp_all add: is_word_def holds_def)
  have "segment ?m 0 (length w + 1) = w @ [0]" by (simp add: segment_def patch_def)
  with w assms show "client_round (Some w) 0 (Some w) message reply c =
      Inr (None, ?m, patch reply 0 w,
           c\<lparr>out_c := out_c c @ shown_round (w @ drop (length w) t), sent_c := sent_c c @ [w @ [0]]\<rparr>)"
    using c_string_holds [OF holds_patch [OF assms(3,1)]]
    by (simp add: client_round_def Let_def mem_simps c_string_patch puts_def shown_round_def)
  show "length ?m = 1000" using w(2) assms(2) by (simp add: mem_simps)
qed

lemma client_loop_words:
  assumes "\<forall>w \<in> set ws. is_word w" "length message = 1000" "holds t reply"
  shows "\<exists>c'. client_loop (map (\<lambda>w. (Some w, 0, Some w)) ws) message reply c = Inr (None, c')
    \<and> sent_c c' = sent_c c @ map (\<lambda>w. w @ [0]) ws \<and> out_c c' = out_c c @ concat (map shown_round (shown_replies t ws))"
  using assms
proof (induction ws arbitrary: message reply t c)
  case (Cons w ws)
  then obtain m where r: "client_round (Some w) 0 (Some w) message reply c =
      Inr (None, m, patch reply 0 w,
           c\<lparr>out_c := out_c c @ shown_round (w @ drop (length w) t), sent_c := sent_c c @ [w @ [0]]\<rparr>)" "length m = 1000"
    using client_round_word [of w message t reply c] by auto
  let ?c = "c\<lparr>out_c := out_c c @ shown_round (w @ drop (length w) t), sent_c := sent_c c @ [w @ [0]]\<rparr>"
  have "\<forall>w \<in> set ws. is_word w" "holds (w @ drop (length w) t) (patch reply 0 w)" using Cons.prems holds_patch by simp_all
  from Cons.IH [OF this(1) r(2) this(2), of ?c] r(1) show ?case by simp
qed simp

lemma shown_replies_sorted:
  "shown_replies t ws = ws \<longleftrightarrow> sorted_wrt (\<lambda>v w. length v \<le> length w) (t # ws)"
proof (induction ws arbitrary: t)
  case (Cons w ws)
  show ?case
  proof (cases "length t \<le> length w")
    case True
    with Cons.IH [of w] show ?thesis by (auto intro: order_trans)
  next
    case False
    then have "w @ drop (length w) t \<noteq> w" by simp
    with False show ?thesis by simp
  qed
qed simp



text \<open>
  The server does not get as far when it is started by its own \<^verbatim>\<open>main\<close>: the first connection, or the first accept that fails, writes four bytes to an area of one, and
  a failed accept is never reported.
\<close>

lemma server_main_faults:
  assumes "\<forall>n. length (junk n) = n" "bound \<ge> 0" "fst a \<noteq> 0"
  shows "server_main e junk socket_desc bound (a # as) s = Inl OutOfBounds"
  using assms by (cases e) (simp_all add: server_main_def mem_simps Let_def split_beta)

text \<open>A line that ends with its newline never closes the connection, and one of 1000 characters or more overruns the buffer.\<close>

lemma send_lines_never_closes:
  assumes "\<forall>l \<in> set ls. 0 \<notin> set l \<and> l \<noteq> [] \<and> last l = 10" "send_lines f ls buf st = Inr st'"
  shows "snd st' = snd st \<and> fst st' = fst st @ ls"
  using assms
proof (induction ls arbitrary: buf st)
  case (Cons l ls)
  then obtain b where w: "mem_write buf 0 (l @ [0]) = Inr b" by (auto simp: rbind_eq_Inr)
  then have "c_string b = Inr l" using c_string_patch [of l buf] Cons.prems(1) by (auto simp: mem_write_def split: if_split_asm)
  moreover have "l \<noteq> ascii ''debug_close''" using Cons.prems(1) by (auto simp: ascii_def)
  ultimately show ?case using Cons w by (auto simp: Let_def split: if_split_asm)
qed simp

lemma send_lines_overruns: "length buf = 1000 \<Longrightarrow> 1000 \<le> length l \<Longrightarrow> send_lines f (l # ls) buf st = Inl OutOfBounds"
  by (simp add: mem_simps)

end
