(* ===== verification/Spec2Isabelle.thy ===== *)
theory Spec2Isabelle
  imports Util Bignum Arrays Crypto Queue Transactions Merkle Blocks Data Build Blockchain Mine Limbo Network Join Miner Locks
    Pool Buffers Protocol Printing Validation Echo
begin

text \<open>
  Verification of freecoin-legacy, a proof-of-work currency node in C (\<^verbatim>\<open>src/src\<close>, \<^verbatim>\<open>src/include\<close>).

  \<^bold>\<open>The program and its parts.\<close> A node keeps blocks, the chain of block hashes by height, limbo (blocks off the chain), transactions and peers
  in five Berkeley databases, and a pool of pending transactions in memory (\<^verbatim>\<open>data.c\<close>). Peers exchange messages (\<^verbatim>\<open>network.c\<close>);
  lists of hashes for them are put together by \<^verbatim>\<open>build.c\<close>. A block is a header of 83 bytes and serialised transactions
  (\<^verbatim>\<open>blocks.c\<close>, \<^verbatim>\<open>transactions.c\<close>), bound to the header by a Merkle root over SHA-256 (\<^verbatim>\<open>crypto.c\<close>). The miner (\<^verbatim>\<open>mine/mine.c\<close>) takes the
  latest block and the target (\<^verbatim>\<open>blockchain.c\<close> with \<^verbatim>\<open>bignum.c\<close>), fills a work block from the pool and searches for a nonce. Arrays, queues and
  conversions (\<^verbatim>\<open>array.c\<close>, \<^verbatim>\<open>queue.c\<close>, \<^verbatim>\<open>util.c\<close>) serve the rest. Each peer has a thread, and two mutexes guard the peers and the pool. Output
  is in \<^verbatim>\<open>printing.c\<close>, the check of new blocks in \<^verbatim>\<open>validation.c\<close>; \<^verbatim>\<open>misc/net-testing\<close> holds experiments with sockets.

  \<^bold>\<open>Conventions.\<close> An integer is a word of its width and wraps around. A C object is a list of bytes, a pointer into it the list and an offset, or the
  list from the offset on for functions that only read; an access outside of it is the error \<open>OutOfBounds\<close>. \<^verbatim>\<open>fatal\<close> is the error \<open>Fatal\<close>, a call
  that does not return \<open>Diverges\<close>. Operations thread their state through \<open>rbind\<close>. The byte order of the host, the clock, the contents of fresh
  memory (\<open>junk\<close>), the results of system calls, Berkeley DB and the functions that are called but defined nowhere in the repository are arguments; what
  is assumed of Berkeley DB is \<open>bdb_documented\<close>, and \<open>alist_bdb\<close> is an instance. The sources do not compile: where a name is misspelled or an
  argument is missing, the text before the definition says how it is read. \<^verbatim>\<open>free\<close> is left out except in \<open>Queue\<close>, \<open>m_tx_die\<close> and \<open>dbs_die\<close>.

  \<^bold>\<open>Theories.\<close>
  \<^item> \<open>Prelude\<close>: types, errors, buffers and their accesses, with the collections \<open>mem_simps\<close> and \<open>res_simps\<close>. \<open>Shared\<close>: the constants of
    \<^verbatim>\<open>shared.h\<close>; the layouts tile their sizes.
  \<^item> \<open>Util\<close> (\<^verbatim>\<open>util.c\<close>): hexadecimal text and integers in bytes; the contract \<open>field_codec\<close> of a fixed-width field, which \<^verbatim>\<open>uitob\<close>/\<^verbatim>\<open>btoui\<close>
    and \<^verbatim>\<open>ustob\<close>/\<^verbatim>\<open>btous\<close> meet up to the reversal of bytes on a little-endian host; round trips.
  \<^item> \<open>Bignum\<close> (\<^verbatim>\<open>bignum.c\<close>): the product is exact on padded operands, and reads too far on others; comparison. \<open>Arrays\<close> (\<^verbatim>\<open>array.c\<close>): the inverted
    comparison makes adding a no-op.
  \<^item> \<open>Crypto\<close> (\<^verbatim>\<open>crypto.c\<close>): the transformation, padding and length counting compute the state words of FIPS 180-4, written out as a reference; the
    output keeps one byte of each.
  \<^item> \<open>Queue\<close> (\<^verbatim>\<open>queue.c\<close>): a heap of nodes; the contract \<open>fifo\<close> and its interpretation on the heap; emptying and freeing.
  \<^item> \<open>Transactions\<close>, \<open>Merkle\<close> (\<^verbatim>\<open>transactions.c\<close>): serialisation and its size; the Merkle root with its exchange of buffers refines a recursive
    definition; binding over the contract \<open>hash_function\<close>.
  \<^item> \<open>Blocks\<close> (\<^verbatim>\<open>blocks.c\<close>): header, nonce, root, size. The nonces reachable by incrementing are counted for both byte orders.
  \<^item> \<open>Data\<close> (\<^verbatim>\<open>data.c\<close>): databases, chain, limbo, pool with its invariant. \<open>Limbo\<close> (\<^verbatim>\<open>data.c\<close>): switching branches and scanning limbo.
  \<^item> \<open>Build\<close> (\<^verbatim>\<open>build.c\<close>), \<open>Blockchain\<close> (\<^verbatim>\<open>blockchain.c\<close>).
  \<^item> \<open>Mine\<close>, \<open>Miner\<close> (\<^verbatim>\<open>mine/mine.c\<close>): the search and the arguments of the program; the main loop and \<^verbatim>\<open>main\<close>.
  \<^item> \<open>Network\<close> (\<^verbatim>\<open>network.c\<close>): sending, the handlers and the message loop; the contract \<open>handler\<close>, which each of them meets. \<open>Join\<close>
    (\<^verbatim>\<open>network.c\<close>): joining the network as a step relation over interleaved threads, with the contract \<open>inv_system\<close> of an invariant.
  \<^item> \<open>Buffers\<close> (\<^verbatim>\<open>network.c\<close>): the contract \<open>sized_handler\<close> extends \<open>handler\<close>: no handler changes the extent of the response buffer.
  \<^item> \<open>Locks\<close> (\<^verbatim>\<open>network.c\<close>, \<^verbatim>\<open>build.c\<close>): the locks of the handlers, any number of threads interleaved; they cannot deadlock, and the pool is used by one
    thread at a time except by a switch of branches.
  \<^item> \<open>Pool\<close> (\<^verbatim>\<open>data.c\<close>, \<^verbatim>\<open>network.c\<close>): the statements of \<^verbatim>\<open>data_mempool_add\<close> run by interleaved threads on a shared pool, a machine that projects to that of
    \<open>Locks\<close>. Under the mutex the handlers refine uninterrupted ones; a switch of branches, which does not take it, can lose a transaction.
  \<^item> \<open>Protocol\<close> (\<^verbatim>\<open>README.md\<close>, \<^verbatim>\<open>network.c\<close>): the documented messages with an encoder and a parser, as an abstract specification; what the handlers make of messages
    that conform to it.
  \<^item> \<open>Printing\<close> (\<^verbatim>\<open>printing.c\<close>, \<^verbatim>\<open>succeed\<close> of \<^verbatim>\<open>mine.c\<close>, \<^verbatim>\<open>testing/testing.c\<close>): the text printed; printed hashes can be read back.
  \<^item> \<open>Validation\<close> (\<^verbatim>\<open>validation.c\<close>): whether a block is connectable to the chain; the wrap-around on a young chain.
  \<^item> \<open>Echo\<close> (\<^verbatim>\<open>misc/net-testing\<close>): an echo server and its client, and a session of both; socket helpers; a sender of lines.
  \<^item> This theory: properties of several components together.

  \<^bold>\<open>What is shown.\<close> The parts that are right are shown right against a specification: the hash states, the Merkle root, the queue, the product, the serialisations, the
  filtering of inventories, the search for a nonce, the invariant of the pool. Where the code does something else than it means to, the theorem states what
  it does on all inputs, and an instance shows that the case arises.

  \<^bold>\<open>Loops.\<close> A counted loop is a primitive recursion on the iterations left. \<open>merkle_loop\<close> and \<open>ids_loop\<close> have measures. \<open>mine_loop\<close>,
  \<open>new_blocks_loop\<close> and \<open>queue_fatal_loop\<close> may run forever in C and are partial functions into \<open>option\<close>; that they return, or cannot, is
  proved where it is claimed. The endless loops of a connection and of the miner are functions of the finite list of what they receive; the theorems hold
  for every such list.

  \<^bold>\<open>Not modelled.\<close> Functions with empty bodies: \<^verbatim>\<open>valid_block\<close>, \<^verbatim>\<open>sha256_state\<close>, \<^verbatim>\<open>data_limbo_exists\<close>, the two of the trace through limbo; where a caller reads
  their value it is an argument. \<^verbatim>\<open>transaction_test\<close> of the test program, which is not called and uses functions and constants that no longer exist. The
  prototypes in the headers. The effects of the handlers are those of one thread at a time (\<open>Network\<close>); the interleavings of their locks are in \<open>Join\<close>
  and \<open>Locks\<close>, without the effects, and for the pool with them in \<open>Pool\<close>. Output is modelled in \<open>Printing\<close> and \<open>Echo\<close> and left out elsewhere.
\<close>

section \<open>Components together\<close>

subsection \<open>Two peers\<close>

lemma received:
  assumes "mem_write msg 0 (0 # payload) = Inr msg'" "2 \<le> length payload"
  shows "3 \<le> length msg'" "msg' ! 0 = 0" "msg' ! 1 = payload ! 0" "msg' ! 2 = payload ! 1"
proof -
  have m: "length payload < length msg" "msg' = patch msg 0 (0 # payload)"
    using assms(1) by (auto simp: mem_write_def split: if_splits)
  then have "msg' = 0 # payload @ drop (1 + length payload) msg" by (simp add: patch_def)
  with assms(2) show "3 \<le> length msg'" "msg' ! 0 = 0" "msg' ! 1 = payload ! 0" "msg' ! 2 = payload ! 1"
    by (auto simp: nth_append)
qed

text \<open>
  C12. How a peer takes a message of another: \<^verbatim>\<open>sendto_peer\<close>, the receive buffer and \<^verbatim>\<open>handle_connection\<close> together. Whatever content type the
  sender gave, the receiver accepts the message only if the first byte of its body is 1, and then takes the second byte of the body as the
  content type; every other message is answered with \<^verbatim>\<open>ERR_BAD_VERSION\<close> and ends the connection. In particular every inventory or request for blocks
  (first byte \<^verbatim>\<open>DTYPE_BLOCK\<close>, 0) and every request for peers (\<^verbatim>\<open>DTYPE_NODE\<close>, 2) is rejected, and an inventory of \<open>n\<close>
  transactions (\<^verbatim>\<open>DTYPE_TX\<close>, 1) is taken as a message of type \<open>n\<close>. This holds for both byte orders.
\<close>

theorem wire_message_misread:
  assumes "\<forall>n. length (junk n) = n" "sendto_peer junk sendto_fn CTYPE body len = Inr raw" "2 \<le> unat len" "unat len \<le> length body"
    and "mem_write msg 0 raw = Inr msg'"
  shows "handle_message N msg' c =
    (if body ! 0 = 1 then rbind (dispatch N (body ! 1) msg' c) (\<lambda>c. Inr (Continue, c))
     else rbind (reject_version N c) (\<lambda>c. Inr (Break, c)))"
proof -
  have "raw = 0 # take (unat len) body" by (rule sendto_peer_Inr [OF assms(1,2)])
  with received [of msg "take (unat len) body" msg'] assms(3-5)
  have "3 \<le> length msg'" "msg' ! 0 = 0" "msg' ! 1 = body ! 0" "msg' ! 2 = body ! 1" by simp_all
  then show ?thesis by (simp add: handle_message_eq)
qed

theorem wire_message_misread_witness:
  "handle_message some_net ([0, 1, 9] @ replicate 5 0) some_conn = Inr (Continue, some_conn\<lparr>sent := [[0]]\<rparr>)"
proof -
  have "sendto_peer (\<lambda>n. replicate n 7) (\<lambda>_. 0) CTYPE_INV [1, 9] 2 = Inr [0, 1, 9]" by code_simp
  moreover have "mem_write (replicate 8 (0 :: uchar)) 0 [0, 1, 9] = Inr ([0, 1, 9] @ replicate 5 0)" by code_simp
  moreover have "dispatch some_net 9 ([0, 1, 9] @ replicate 5 0) some_conn = Inr (some_conn\<lparr>sent := [[0]]\<rparr>)" by code_simp
  ultimately show ?thesis
    using wire_message_misread [of "\<lambda>n. replicate n 7" "\<lambda>_. 0" CTYPE_INV "[1, 9]" 2 "[0, 1, 9]" "replicate 8 0" _ some_net some_conn]
    by simp
qed

subsection \<open>Storage and inventories\<close>

text \<open>
  C20. Once it has stored one block, a node never asks for another. With Berkeley DB behaving as documented and without storage errors, every inventory
  of blocks that arrives after a \<^verbatim>\<open>data_blocks_add\<close>, whatever hashes it lists, is answered with a request for none: the three bytes
  0, \<^verbatim>\<open>DTYPE_BLOCK\<close>, 0. (All keys in the database are empty, so every hash counts as stored.)
\<close>

theorem inventory_of_blocks_ignored:
  assumes "E = env_n N" "bdb_documented (bdb_e E)" "\<forall>db k v. fst (b_put (bdb_e E) db k v) = 0"
    and "dbs_c c = data_blocks_add base (bdb_e E) (ext_e E) dbs0 block"
    and "\<forall>n. length (junk_e E n) = n" "\<forall>raw. 0 \<le> sendto N raw"
    and "msg ! 0 = DTYPE_BLOCK" "2 + SIZE_SHA256 * unat (msg ! 1) \<le> length msg" "2 + SIZE_SHA256 * unat (msg ! 1) \<le> length (resp c)"
  shows "\<exists>r. on_inv N msg c = Inr (c\<lparr>resp := r, sent := sent c @ [[0, DTYPE_BLOCK, 0]]\<rparr>)"
proof -
  have "data_blocks_exists (bdb_e E) (dbs_c c) hash = 1" for hash
    unfolding assms(4) by (simp add: blocks_add_empties [OF assms(2,3)])
  then have "missing_at (data_blocks_exists (bdb_e E) (dbs_c c)) msg 2 n = []" for n by (simp add: missing_at_def)
  then have b: "build_missing_blocks_list (bdb_e E) (dbs_c c) msg 2 (msg ! 1) (resp c) 2 = Inr (0, resp c)"
    using missing_list_ok [OF assms(8,9)] by (simp add: build_missing_blocks_list_def hashes_at_def)
  let ?r = "(resp c)[0 := 0, 1 := 0]"
  have len: "2 \<le> length (resp c)" "2 \<le> length msg" using assms(8,9) by simp_all
  then have "take 2 ?r = [0, 0]" by (cases "resp c"; cases "tl (resp c)") auto
  then have s: "sendto_peer (junk_e E) (sendto N) CTYPE_GETDATA ?r 2 = Inr [0, 0, 0]"
    using sendto_peer_ok [OF assms(5), of 2 ?r] len assms(6) by (simp add: not_less)
  have "load msg 0 = Inr 0" "load msg 1 = Inr (msg ! 1)" using len assms(7) by (auto simp: load_def)
  with b s len assms(1) have "on_inv N msg c = Inr (c\<lparr>resp := ?r, sent := sent c @ [[0, 0, 0]]\<rparr>)"
    by (auto simp: on_inv_def send_list_def send_resp_def store_def)
  then show ?thesis by blast
qed

theorem inventory_of_blocks_ignored_witness:
  "\<exists>r. on_inv some_net ([0, 1] @ replicate 32 4)
      (some_conn\<lparr>dbs_c := data_blocks_add 0 alist_bdb some_ext some_dbs (replicate 83 0)\<rparr>)
    = Inr (some_conn\<lparr>dbs_c := data_blocks_add 0 alist_bdb some_ext some_dbs (replicate 83 0), resp := r, sent := [[0, 0, 0]]\<rparr>)"
proof -
  let ?c = "some_conn\<lparr>dbs_c := data_blocks_add 0 alist_bdb some_ext some_dbs (replicate 83 0)\<rparr>"
  have E: "bdb_e (env_n some_net) = alist_bdb" "ext_e (env_n some_net) = some_ext" "\<forall>n. length (junk_e (env_n some_net) n) = n"
    "\<forall>raw. 0 \<le> sendto some_net raw"
    by (simp_all add: some_net_def some_env_def)
  have d: "bdb_documented alist_bdb" "\<forall>db k v. fst (b_put alist_bdb db k v) = 0"
    using some_env_documented by (simp_all add: some_env_def)
  have "sent ?c = []" "length (resp ?c) = 40" by (simp_all add: some_conn_def)
  with inventory_of_blocks_ignored [of "env_n some_net" some_net ?c 0 some_dbs "replicate 83 0" "[0, 1] @ replicate 32 4"] E d
  show ?thesis by simp
qed

end
